theory Spec2Isabelle
  imports Main "HOL-Library.Word" "HOL-Library.Log_Nat" "HOL-Library.Multiset"
begin

section \<open>Connector registry and error messages (src/pages/index.tsx, lines 18-73)\<close>

text \<open>
  The enum \<open>ConnectorNames\<close>: one member per wallet connector. \<open>ConnectorNames_value\<close>
  gives the string each member stands for; these strings are the keys of
  \<open>connectorsByName\<close>, in the order the object literal lists them, which is the order
  \<open>Object.keys\<close> returns.
\<close>

datatype ConnectorNames =
  Injected | Network | WalletConnect | WalletLink | Ledger | Trezor | Lattice
  | Frame | Authereum | Fortmatic | Magic | Portis | Torus

fun ConnectorNames_value :: "ConnectorNames \<Rightarrow> string" where
  "ConnectorNames_value Injected = ''Metamask''"
| "ConnectorNames_value Network = ''Network''"
| "ConnectorNames_value WalletConnect = ''WalletConnect''"
| "ConnectorNames_value WalletLink = ''WalletLink''"
| "ConnectorNames_value Ledger = ''Ledger''"
| "ConnectorNames_value Trezor = ''Trezor''"
| "ConnectorNames_value Lattice = ''Lattice''"
| "ConnectorNames_value Frame = ''Frame''"
| "ConnectorNames_value Authereum = ''Authereum''"
| "ConnectorNames_value Fortmatic = ''Fortmatic''"
| "ConnectorNames_value Magic = ''Magic''"
| "ConnectorNames_value Portis = ''Portis''"
| "ConnectorNames_value Torus = ''Torus''"

definition connectorsByName_keys :: "ConnectorNames list" where
  "connectorsByName_keys =
     [Injected, Network, WalletConnect, WalletLink, Ledger, Trezor, Lattice,
      Frame, Authereum, Fortmatic, Magic, Portis, Torus]"

text \<open>
  The classes \<open>getErrorMessage\<close> tests with \<open>instanceof\<close>, in the order it tests them.
  The three user-rejection classes are three different imports, one per connector
  package; every other \<open>Error\<close> is \<open>OtherError\<close>.
\<close>

datatype web3_error =
  NoEthereumProviderError
  | UnsupportedChainIdError
  | UserRejectedRequestErrorInjected
  | UserRejectedRequestErrorWalletConnect
  | UserRejectedRequestErrorFrame
  | OtherError string

definition msg_no_provider :: string where
  "msg_no_provider =
     ''No Ethereum browser extension detected, install MetaMask on desktop or visit from a dApp browser on mobile.''"

definition msg_unsupported_chain :: string where
  "msg_unsupported_chain = ''You're connected to an unsupported network.''"

definition msg_authorize :: string where
  "msg_authorize = ''Please authorize this website to access your Ethereum account.''"

definition msg_unknown :: string where
  "msg_unknown = ''An unknown error occurred. Check the console for more details.''"

text \<open>
  \<open>getErrorMessage\<close> returns the message; its last branch also writes the error to the
  console, which \<open>getErrorMessage_logs\<close> records.
\<close>

fun getErrorMessage :: "web3_error \<Rightarrow> string" where
  "getErrorMessage NoEthereumProviderError = msg_no_provider"
| "getErrorMessage UnsupportedChainIdError = msg_unsupported_chain"
| "getErrorMessage UserRejectedRequestErrorInjected = msg_authorize"
| "getErrorMessage UserRejectedRequestErrorWalletConnect = msg_authorize"
| "getErrorMessage UserRejectedRequestErrorFrame = msg_authorize"
| "getErrorMessage (OtherError m) = msg_unknown"

fun getErrorMessage_logs :: "web3_error \<Rightarrow> web3_error list" where
  "getErrorMessage_logs (OtherError m) = [OtherError m]"
| "getErrorMessage_logs e = []"

definition is_user_rejection :: "web3_error \<Rightarrow> bool" where
  "is_user_rejection e \<longleftrightarrow>
     e = UserRejectedRequestErrorInjected
     \<or> e = UserRejectedRequestErrorWalletConnect
     \<or> e = UserRejectedRequestErrorFrame"


section \<open>The App component (lines 231-465)\<close>

text \<open>
  The fields of the web3-react context that \<open>App\<close> reads. A connector is a reference
  to an object of the connectors module; the type \<open>'c\<close> stands for such references and
  the registry \<open>connectorsByName\<close> is a parameter \<open>byName\<close> of every function that
  reads it. An absent (\<open>undefined\<close>) field is \<open>None\<close>.
\<close>

record ('c, 'l) web3_context =
  connector :: "'c option"
  library :: "'l option"
  chainId :: "nat option"
  account :: "string option"
  active :: bool
  error :: "web3_error option"

text \<open>
  The state of \<open>App\<close>: the context, the \<open>activatingConnector\<close> state variable and the
  value \<open>triedEager\<close> of the eager-connect hook.
\<close>

record ('c, 'l) app_state =
  ctx :: "('c, 'l) web3_context"
  activatingConnector :: "'c option"
  triedEager :: bool

text \<open>Objects are truthy, \<open>undefined\<close> and \<open>null\<close> are falsy: \<open>!!x\<close> on an optional object.\<close>

definition truthy_obj :: "'a option \<Rightarrow> bool" where
  "truthy_obj x \<longleftrightarrow> x \<noteq> None"

text \<open>A string is truthy when it is present and not empty.\<close>

definition truthy_str :: "string option \<Rightarrow> bool" where
  "truthy_str x \<longleftrightarrow> (case x of None \<Rightarrow> False | Some s \<Rightarrow> s \<noteq> [])"

text \<open>
  The body of the \<open>map\<close> callback of lines 264-284: \<open>activating\<close>, \<open>connected\<close> and
  \<open>disabled\<close> of the button of one registry entry.
\<close>

definition activating :: "(ConnectorNames \<Rightarrow> 'c) \<Rightarrow> ('c, 'l) app_state \<Rightarrow> ConnectorNames \<Rightarrow> bool" where
  "activating byName st name \<longleftrightarrow> Some (byName name) = activatingConnector st"

definition connected :: "(ConnectorNames \<Rightarrow> 'c) \<Rightarrow> ('c, 'l) app_state \<Rightarrow> ConnectorNames \<Rightarrow> bool" where
  "connected byName st name \<longleftrightarrow> Some (byName name) = connector (ctx st)"

definition disabled :: "(ConnectorNames \<Rightarrow> 'c) \<Rightarrow> ('c, 'l) app_state \<Rightarrow> ConnectorNames \<Rightarrow> bool" where
  "disabled byName st name \<longleftrightarrow>
     \<not> triedEager st \<or> truthy_obj (activatingConnector st)
     \<or> connected byName st name \<or> truthy_obj (error (ctx st))"

record connector_button =
  btn_key :: string
  btn_disabled :: bool
  btn_spinner :: bool
  btn_check :: bool

definition connector_button :: "(ConnectorNames \<Rightarrow> 'c) \<Rightarrow> ('c, 'l) app_state \<Rightarrow> ConnectorNames \<Rightarrow> connector_button" where
  "connector_button byName st name =
     \<lparr>btn_key = ConnectorNames_value name,
      btn_disabled = disabled byName st name,
      btn_spinner = activating byName st name,
      btn_check = connected byName st name\<rparr>"

definition connector_buttons :: "(ConnectorNames \<Rightarrow> 'c) \<Rightarrow> ('c, 'l) app_state \<Rightarrow> connector_button list" where
  "connector_buttons byName st = map (connector_button byName st) connectorsByName_keys"

text \<open>
  The four conditions in the words of the specification, each on its own, for the
  comparison with \<open>disabled\<close>.
\<close>

definition eager_connect_incomplete :: "('c, 'l) app_state \<Rightarrow> bool" where
  "eager_connect_incomplete st \<longleftrightarrow> triedEager st = False"

definition some_connector_mid_activation :: "('c, 'l) app_state \<Rightarrow> bool" where
  "some_connector_mid_activation st \<longleftrightarrow> (\<exists>c. activatingConnector st = Some c)"

definition entry_is_active_connector :: "(ConnectorNames \<Rightarrow> 'c) \<Rightarrow> ('c, 'l) app_state \<Rightarrow> ConnectorNames \<Rightarrow> bool" where
  "entry_is_active_connector byName st name \<longleftrightarrow> connector (ctx st) = Some (byName name)"

definition context_holds_error :: "('c, 'l) app_state \<Rightarrow> bool" where
  "context_holds_error st \<longleftrightarrow> (\<exists>e. error (ctx st) = Some e)"

text \<open>
  The effect of lines 237-241 and the click handler of lines 281-284. React runs the
  effect after a render in which \<open>activatingConnector\<close> or \<open>connector\<close> changed; its
  body reads nothing else, so running it after every change of the state gives the
  same states. \<open>activate\<close> belongs to web3-react: the handler's call of it is recorded
  as the request it makes, and what web3-react does to the context afterwards is an
  event of its own (\<open>ContextUpdate\<close>). A disabled button delivers no click.
\<close>

definition activating_effect :: "('c, 'l) app_state \<Rightarrow> ('c, 'l) app_state" where
  "activating_effect st =
     (if truthy_obj (activatingConnector st) \<and> activatingConnector st = connector (ctx st)
      then st\<lparr>activatingConnector := None\<rparr> else st)"

definition connector_onClick :: "(ConnectorNames \<Rightarrow> 'c) \<Rightarrow> ConnectorNames \<Rightarrow> ('c, 'l) app_state \<Rightarrow> ('c, 'l) app_state \<times> 'c" where
  "connector_onClick byName name st =
     (st\<lparr>activatingConnector := Some (byName name)\<rparr>, byName name)"

datatype ('c, 'l) app_event =
  ClickConnector ConnectorNames
  | ContextUpdate "('c, 'l) web3_context"
  | EagerTried

fun app_update :: "(ConnectorNames \<Rightarrow> 'c) \<Rightarrow> ('c, 'l) app_event \<Rightarrow> ('c, 'l) app_state \<Rightarrow> ('c, 'l) app_state" where
  "app_update byName (ClickConnector name) st =
     (if disabled byName st name then st else fst (connector_onClick byName name st))"
| "app_update byName (ContextUpdate c) st = st\<lparr>ctx := c\<rparr>"
| "app_update byName EagerTried st = st\<lparr>triedEager := True\<rparr>"

definition app_step :: "(ConnectorNames \<Rightarrow> 'c) \<Rightarrow> ('c, 'l) app_event \<Rightarrow> ('c, 'l) app_state \<Rightarrow> ('c, 'l) app_state" where
  "app_step byName ev st = activating_effect (app_update byName ev st)"

fun app_run :: "(ConnectorNames \<Rightarrow> 'c) \<Rightarrow> ('c, 'l) app_event list \<Rightarrow> ('c, 'l) app_state \<Rightarrow> ('c, 'l) app_state" where
  "app_run byName [] st = st"
| "app_run byName (ev # evs) st = app_run byName evs (app_step byName ev st)"

text \<open>The state at mount: an empty context, no marker, eager connect not yet tried.\<close>

definition app_init :: "('c, 'l) app_state" where
  "app_init =
     \<lparr>ctx = \<lparr>connector = None, library = None, chainId = None, account = None,
                  active = False, error = None\<rparr>,
      activatingConnector = None, triedEager = False\<rparr>"


section \<open>The Interact component (lines 467-627)\<close>

text \<open>
  The props \<open>App\<close> passes (line 252) and the four state variables. A token id held in
  the state is a JavaScript number that came out of \<open>Number\<close> applied to an unsigned
  integer of the contract, so it is a natural number. The arrays are lists: order and
  repetitions are kept as the code keeps them.
\<close>

record 'l interact_props =
  props_library :: "'l option"
  props_account :: "string option"

definition App_interact_props :: "('c, 'l) app_state \<Rightarrow> 'l interact_props" where
  "App_interact_props st =
     \<lparr>props_library = library (ctx st), props_account = account (ctx st)\<rparr>"

record interact_state =
  craniumBalance :: "nat list"
  stallionBalance :: "nat list"
  checkedCraniums :: "nat list"
  checkedStallions :: "nat list"

definition interact_init :: interact_state where
  "interact_init =
     \<lparr>craniumBalance = [], stallionBalance = [], checkedCraniums = [], checkedStallions = []\<rparr>"

datatype collection = Cranium | Stallion

text \<open>
  A contract call, as the handlers make it: the contract (one of the three address
  constants), the account the signer was made for, and the entry point with its arguments.
\<close>

datatype contract = MAINNET_CRANIUM_CONTRACT | MAINNET_STALLION_CONTRACT | MAINNET_STAKING_CONTRACT

datatype entry_point =
  setApprovalForAll contract bool
  | balanceOf string
  | tokenOfOwnerByIndex string nat
  | stake "nat list" "nat list"

datatype call = Call contract string entry_point

fun collection_contract :: "collection \<Rightarrow> contract" where
  "collection_contract Cranium = MAINNET_CRANIUM_CONTRACT"
| "collection_contract Stallion = MAINNET_STALLION_CONTRACT"

text \<open>The \<open>disabled\<close> attribute of the Stake button (line 620).\<close>

definition stake_disabled :: "interact_state \<Rightarrow> bool" where
  "stake_disabled st \<longleftrightarrow>
     length (checkedCraniums st) \<noteq> length (checkedStallions st)
     \<or> length (checkedCraniums st) = 0 \<or> length (checkedStallions st) = 0"

text \<open>
  The pairing precondition in the words of the specification: both checked collections
  non-empty and of equal size. The size of a checked collection is the length of its
  array, repetitions counted.
\<close>

definition pairing_precondition :: "nat list \<Rightarrow> nat list \<Rightarrow> bool" where
  "pairing_precondition cs ss \<longleftrightarrow> cs \<noteq> [] \<and> ss \<noteq> [] \<and> length cs = length ss"

text \<open>The \<open>onChange\<close> handlers of the checkboxes (lines 565-567 and 592-594).\<close>

definition cranium_onChange :: "bool \<Rightarrow> nat \<Rightarrow> interact_state \<Rightarrow> interact_state" where
  "cranium_onChange checked n st =
     (if checked then st\<lparr>checkedCraniums := n # checkedCraniums st\<rparr>
      else st\<lparr>checkedCraniums := filter (\<lambda>e. e \<noteq> n) (checkedCraniums st)\<rparr>)"

definition stallion_onChange :: "bool \<Rightarrow> nat \<Rightarrow> interact_state \<Rightarrow> interact_state" where
  "stallion_onChange checked n st =
     (if checked then st\<lparr>checkedStallions := n # checkedStallions st\<rparr>
      else st\<lparr>checkedStallions := filter (\<lambda>e. e \<noteq> n) (checkedStallions st)\<rparr>)"

text \<open>The \<open>onClick\<close> handlers of the Approve and Stake buttons: the call each one makes.\<close>

definition approve_craniums_onClick :: "string \<Rightarrow> call" where
  "approve_craniums_onClick a =
     Call MAINNET_CRANIUM_CONTRACT a (setApprovalForAll MAINNET_STAKING_CONTRACT True)"

definition approve_stallions_onClick :: "string \<Rightarrow> call" where
  "approve_stallions_onClick a =
     Call MAINNET_STALLION_CONTRACT a (setApprovalForAll MAINNET_STAKING_CONTRACT True)"

definition stake_onClick :: "string \<Rightarrow> interact_state \<Rightarrow> call" where
  "stake_onClick a st =
     Call MAINNET_STAKING_CONTRACT a (stake (checkedCraniums st) (checkedStallions st))"

text \<open>The two balance queries the Fetch handler makes before anything else (lines 523-524).\<close>

definition fetch_balance_calls :: "string \<Rightarrow> call list" where
  "fetch_balance_calls a =
     [Call MAINNET_CRANIUM_CONTRACT a (balanceOf a), Call MAINNET_STALLION_CONTRACT a (balanceOf a)]"

text \<open>
  What \<open>Interact\<close> returns: the controls of the panel in document order, or nothing when
  \<open>!!(props.library && props.account)\<close> is false. A checkbox carries its index and the
  id it shows.
\<close>

datatype control =
  ApproveCraniumsButton
  | ApproveStallionsButton
  | FetchButton
  | CollectionLabel collection
  | Checkbox collection nat nat
  | StakeButton bool

definition checkboxes :: "collection \<Rightarrow> nat list \<Rightarrow> control list" where
  "checkboxes c owned =
     (if length owned > 0 then [CollectionLabel c] else [])
     @ map (\<lambda>(i, n). Checkbox c i n) (enumerate 0 owned)"

definition panel_shown :: "'l interact_props \<Rightarrow> bool" where
  "panel_shown props \<longleftrightarrow> truthy_obj (props_library props) \<and> truthy_str (props_account props)"

definition Interact :: "'l interact_props \<Rightarrow> interact_state \<Rightarrow> control list" where
  "Interact props st =
     (if panel_shown props
      then [ApproveCraniumsButton, ApproveStallionsButton, FetchButton]
           @ checkboxes Cranium (craniumBalance st)
           @ checkboxes Stallion (stallionBalance st)
           @ [StakeButton (stake_disabled st)]
      else [])"

text \<open>
  What the user can do to the panel. An action reaches its handler only through a
  control that is rendered and not disabled; \<open>invoke\<close> is \<open>None\<close> when there is no such
  control, and otherwise the state after the handler and the contract calls it made.
  \<open>Toggle c i b\<close> is the change event of the checkbox with index \<open>i\<close> of collection \<open>c\<close>,
  with \<open>b\<close> the value of \<open>e.target.checked\<close>.
\<close>

datatype action =
  PressApproveCraniums | PressApproveStallions | PressFetch
  | Toggle collection nat bool | PressStake

fun handler :: "string \<Rightarrow> interact_state \<Rightarrow> action \<Rightarrow> (interact_state \<times> call list) option" where
  "handler a st PressApproveCraniums = Some (st, [approve_craniums_onClick a])"
| "handler a st PressApproveStallions = Some (st, [approve_stallions_onClick a])"
| "handler a st PressFetch = Some (st, fetch_balance_calls a)"
| "handler a st (Toggle Cranium i b) =
     (if i < length (craniumBalance st)
      then Some (cranium_onChange b (craniumBalance st ! i) st, []) else None)"
| "handler a st (Toggle Stallion i b) =
     (if i < length (stallionBalance st)
      then Some (stallion_onChange b (stallionBalance st ! i) st, []) else None)"
| "handler a st PressStake =
     (if stake_disabled st then None else Some (st, [stake_onClick a st]))"

definition invoke :: "'l interact_props \<Rightarrow> interact_state \<Rightarrow> action \<Rightarrow> (interact_state \<times> call list) option" where
  "invoke props st act =
     (if panel_shown props
      then (case props_account props of None \<Rightarrow> None | Some a \<Rightarrow> handler a st act)
      else None)"


section \<open>The Fetch handler (lines 519-546)\<close>

text \<open>
  The contracts return unsigned 256-bit integers. \<open>Number\<close> turns one into a
  JavaScript number, the nearest double: the integer itself below \<open>2 ^ 53\<close>, and above
  that the integer rounded to 53 significant bits, ties to the even significand. The
  result is again an integer, so no fraction is needed to write it down.
\<close>

type_synonym uint256 = "256 word"

definition js_Number :: "nat \<Rightarrow> nat" where
  "js_Number n =
     (if n < 2 ^ 53 then n
      else let e = floorlog 2 n - 53; q = n div 2 ^ e; r = n mod 2 ^ e; h = 2 ^ (e - 1)
           in if h < r \<or> (r = h \<and> odd q) then (q + 1) * 2 ^ e else q * 2 ^ e)"

definition Number :: "uint256 \<Rightarrow> nat" where
  "Number v = js_Number (unat v)"

text \<open>
  What a promise can be rejected with, or a callback can throw: an error of the
  provider with its \<open>message\<close> (if it has one), or a \<open>RangeError\<close> of the JavaScript
  engine with its message. \<open>error_message e\<close> is the message the alert shows:
  \<open>error && error.message\<close> when that is truthy.
\<close>

datatype thrown = ProviderError "string option" | RangeError string

fun error_message :: "thrown \<Rightarrow> string option" where
  "error_message (ProviderError None) = None"
| "error_message (ProviderError (Some m)) = (if m = [] then None else Some m)"
| "error_message (RangeError m) = (if m = [] then None else Some m)"

text \<open>
  What the handler depends on in the JavaScript engine that runs it: the largest number
  of arguments \<open>Function.prototype.apply\<close> passes before it throws a \<open>RangeError\<close> (the
  language sets no such limit, every engine has one, and it differs between engines),
  and the messages of the two \<open>RangeError\<close>s. The source does not fix the engine, so
  it is a parameter.
\<close>

record engine =
  apply_limit :: nat
  invalid_length_message :: string
  too_many_arguments_message :: string

text \<open>
  \<open>Array.apply(null, Array(len))\<close>: first \<open>Array(len)\<close> throws a \<open>RangeError\<close> unless
  \<open>len\<close> is an integer below \<open>2 ^ 32\<close>; then \<open>apply\<close> passes the \<open>len\<close> elements as
  arguments and throws a \<open>RangeError\<close> when they are more than the engine's limit;
  otherwise the result has \<open>len\<close> elements and \<open>map\<close> visits the indices \<open>0\<close> to
  \<open>len - 1\<close> in order.
\<close>

definition Array_indices :: "engine \<Rightarrow> nat \<Rightarrow> thrown + nat list" where
  "Array_indices eng len =
     (if \<not> len < 2 ^ 32 then Inl (RangeError (invalid_length_message eng))
      else if apply_limit eng < len then Inl (RangeError (too_many_arguments_message eng))
      else Inr [0..<len])"

text \<open>The lengths for which it returns, and what it throws for the others.\<close>

definition accepts :: "engine \<Rightarrow> nat \<Rightarrow> bool" where
  "accepts eng len \<longleftrightarrow> len < 2 ^ 32 \<and> len \<le> apply_limit eng"

definition Array_error :: "engine \<Rightarrow> nat \<Rightarrow> thrown" where
  "Array_error eng len =
     (if \<not> len < 2 ^ 32 then RangeError (invalid_length_message eng)
      else RangeError (too_many_arguments_message eng))"

text \<open>
  An engine for concrete runs: a limit of 65536 arguments, and the messages in the
  wording of V8. Nothing general is proved of it.
\<close>

definition example_engine :: engine where
  "example_engine =
     \<lparr>apply_limit = 65536, invalid_length_message = ''Invalid array length'',
      too_many_arguments_message = ''Maximum call stack size exceeded''\<rparr>"

text \<open>
  A call that was issued stays pending until the provider settles it. The provider's
  answers are the events of the model: it may settle any pending call, at any time, in
  any order.
\<close>

datatype outcome = Resolves uint256 | Rejects thrown

datatype event =
  BalanceSettles collection outcome
  | TokenSettles collection nat outcome

text \<open>
  What the handler and its callbacks do that can be seen from outside, in the order it
  happens: a contract call issued, the provider settling a call, \<open>console.log\<close>,
  \<open>window.alert\<close> (the heading and the message shown after it, if any), a call of
  \<open>setCraniumBalance\<close> or \<open>setStallionBalance\<close>, and a rejection no handler takes.
\<close>

datatype effect =
  Issued call
  | Settled event
  | ConsoleLog thrown
  | Alert string "string option"
  | SetBalance collection "nat list"
  | UnhandledRejection thrown

text \<open>
  \<open>Promise.all\<close> over promises of which some are settled (\<open>None\<close> is a pending one): it
  is rejected as soon as one of them is, fulfilled with all the values once all are
  fulfilled, pending otherwise.
\<close>

fun first_rejection :: "outcome option list \<Rightarrow> thrown option" where
  "first_rejection [] = None"
| "first_rejection (Some (Rejects e) # ps) = Some e"
| "first_rejection (p # ps) = first_rejection ps"

fun fulfilled_values :: "outcome option list \<Rightarrow> uint256 list option" where
  "fulfilled_values [] = Some []"
| "fulfilled_values (Some (Resolves v) # ps) = map_option ((#) v) (fulfilled_values ps)"
| "fulfilled_values (p # ps) = None"

datatype all_state = NotAttached | Waiting | AllFulfilled | AllRejected

text \<open>
  The state of one Fetch: the engine it runs in, the account of the props, the two
  balance promises, the
  promise of \<open>Promise.all\<close> over them (line 525), the token promises of each collection
  once they exist (lines 527-533), the promise of \<open>Promise.all\<close> over each collection's
  token promises once \<open>then\<close> is attached to it (lines 535 and 538), and the effects so
  far.
\<close>

record fetch_state =
  fetch_engine :: engine
  fetch_account :: string
  balance_promise :: "collection \<Rightarrow> outcome option"
  balances_all :: all_state
  token_promises :: "collection \<Rightarrow> outcome option list"
  tokens_all :: "collection \<Rightarrow> all_state"
  trace :: "effect list"

definition emit :: "effect list \<Rightarrow> fetch_state \<Rightarrow> fetch_state" where
  "emit es st = st\<lparr>trace := trace st @ es\<rparr>"

text \<open>The click: both balance queries are issued, nothing else happens yet.\<close>

definition fetch_onClick :: "engine \<Rightarrow> string \<Rightarrow> fetch_state" where
  "fetch_onClick eng a =
     \<lparr>fetch_engine = eng, fetch_account = a, balance_promise = (\<lambda>c. None), balances_all = Waiting,
      token_promises = (\<lambda>c. []), tokens_all = (\<lambda>c. NotAttached),
      trace = map Issued (fetch_balance_calls a)\<rparr>"

text \<open>The \<open>catch\<close> callback (lines 542-545).\<close>

definition catch_handler :: "thrown \<Rightarrow> fetch_state \<Rightarrow> fetch_state" where
  "catch_handler e st =
     emit [ConsoleLog e, Alert ''Failure fetching Cranium & Stallion balance!'' (error_message e)] st"

text \<open>
  The \<open>then\<close> callbacks of lines 535-540: when all token promises of the collection
  are fulfilled the setter is called with their values under \<open>Number\<close>; when one is
  rejected, the promise \<open>then\<close> returned is rejected and nothing handles it.
\<close>

definition tokens_all_reaction :: "collection \<Rightarrow> fetch_state \<Rightarrow> fetch_state" where
  "tokens_all_reaction c st =
     (if tokens_all st c \<noteq> Waiting then st
      else case first_rejection (token_promises st c) of
        Some e \<Rightarrow> emit [UnhandledRejection e] (st\<lparr>tokens_all := (tokens_all st)(c := AllRejected)\<rparr>)
      | None \<Rightarrow>
          (case fulfilled_values (token_promises st c) of
            Some vs \<Rightarrow> emit [SetBalance c (map Number vs)]
                         (st\<lparr>tokens_all := (tokens_all st)(c := AllFulfilled)\<rparr>)
          | None \<Rightarrow> st))"

definition lookup_call :: "string \<Rightarrow> collection \<Rightarrow> nat \<Rightarrow> effect" where
  "lookup_call a c i = Issued (Call (collection_contract c) a (tokenOfOwnerByIndex a i))"

definition issue_lookups :: "collection \<Rightarrow> nat list \<Rightarrow> fetch_state \<Rightarrow> fetch_state" where
  "issue_lookups c ixs st =
     emit (map (lookup_call (fetch_account st) c) ixs)
       (st\<lparr>token_promises := (token_promises st)(c := map (\<lambda>i. None) ixs)\<rparr>)"

text \<open>
  The \<open>then\<close> callback of lines 526-541, in the order of its statements. A throw of
  \<open>Array\<close> leaves the callback there and rejects the promise \<open>then\<close> returned, which the
  \<open>catch\<close> takes. The reactions of the two inner \<open>Promise.all\<close> run after the callback,
  the Cranium one first; they do something at this point only for an empty array.
\<close>

definition then_handler :: "uint256 \<Rightarrow> uint256 \<Rightarrow> fetch_state \<Rightarrow> fetch_state" where
  "then_handler cranium_balance stallion_balance st =
     (case Array_indices (fetch_engine st) (Number cranium_balance) of
        Inl e \<Rightarrow> catch_handler e st
      | Inr cs \<Rightarrow>
          let st1 = issue_lookups Cranium cs st in
          (case Array_indices (fetch_engine st) (Number stallion_balance) of
             Inl e \<Rightarrow> catch_handler e st1
           | Inr ss \<Rightarrow>
               let st2 = issue_lookups Stallion ss st1;
                   st3 = st2\<lparr>tokens_all := (\<lambda>c. Waiting)\<rparr>
               in tokens_all_reaction Stallion (tokens_all_reaction Cranium st3)))"

text \<open>The reactions of \<open>Promise.all\<close> over the two balance promises (lines 525-545).\<close>

definition balances_all_reaction :: "fetch_state \<Rightarrow> fetch_state" where
  "balances_all_reaction st =
     (if balances_all st \<noteq> Waiting then st
      else case first_rejection [balance_promise st Cranium, balance_promise st Stallion] of
        Some e \<Rightarrow> catch_handler e (st\<lparr>balances_all := AllRejected\<rparr>)
      | None \<Rightarrow>
          (case (balance_promise st Cranium, balance_promise st Stallion) of
            (Some (Resolves cb), Some (Resolves sb)) \<Rightarrow>
               then_handler cb sb (st\<lparr>balances_all := AllFulfilled\<rparr>)
          | _ \<Rightarrow> st))"

text \<open>
  The provider settles a call: \<open>None\<close> when that call is not pending. A token promise
  rejected while no \<open>Promise.all\<close> is attached to it (the callback was left by a throw)
  has no handler of its own either.
\<close>

definition balance_step :: "collection \<Rightarrow> outcome \<Rightarrow> fetch_state \<Rightarrow> fetch_state" where
  "balance_step c out st =
     balances_all_reaction
       (emit [Settled (BalanceSettles c out)]
          (st\<lparr>balance_promise := (balance_promise st)(c := Some out)\<rparr>))"

definition token_step :: "collection \<Rightarrow> nat \<Rightarrow> outcome \<Rightarrow> fetch_state \<Rightarrow> fetch_state" where
  "token_step c i out st =
     (let st1 = emit [Settled (TokenSettles c i out)]
                  (st\<lparr>token_promises := (token_promises st)(c := (token_promises st c)[i := Some out])\<rparr>)
      in if tokens_all st1 c = NotAttached
         then (case out of Rejects e \<Rightarrow> emit [UnhandledRejection e] st1 | Resolves v \<Rightarrow> st1)
         else tokens_all_reaction c st1)"

fun deliver :: "event \<Rightarrow> fetch_state \<Rightarrow> fetch_state option" where
  "deliver (BalanceSettles c out) st =
     (if balance_promise st c = None then Some (balance_step c out st) else None)"
| "deliver (TokenSettles c i out) st =
     (if i < length (token_promises st c) \<and> token_promises st c ! i = None
      then Some (token_step c i out st) else None)"

fun run :: "event list \<Rightarrow> fetch_state \<Rightarrow> fetch_state option" where
  "run [] st = Some st"
| "run (ev # evs) st = (case deliver ev st of None \<Rightarrow> None | Some st' \<Rightarrow> run evs st')"

text \<open>The setter calls of a trace, applied to the component's state in order.\<close>

fun apply_effect :: "effect \<Rightarrow> interact_state \<Rightarrow> interact_state" where
  "apply_effect (SetBalance Cranium ids) ui = ui\<lparr>craniumBalance := ids\<rparr>"
| "apply_effect (SetBalance Stallion ids) ui = ui\<lparr>stallionBalance := ids\<rparr>"
| "apply_effect e ui = ui"

definition after_fetch :: "fetch_state \<Rightarrow> interact_state \<Rightarrow> interact_state" where
  "after_fetch st ui = fold apply_effect (trace st) ui"

text \<open>Kinds of effect, for reading a trace.\<close>

fun is_lookup :: "collection \<Rightarrow> effect \<Rightarrow> bool" where
  "is_lookup c (Issued (Call k a (tokenOfOwnerByIndex a' i))) = (k = collection_contract c)"
| "is_lookup c e = False"

fun is_set :: "collection \<Rightarrow> effect \<Rightarrow> bool" where
  "is_set c (SetBalance c' ids) = (c' = c)"
| "is_set c e = False"

fun is_alert :: "effect \<Rightarrow> bool" where
  "is_alert (Alert h m) = True"
| "is_alert e = False"

fun is_balance_resolved :: "collection \<Rightarrow> effect \<Rightarrow> bool" where
  "is_balance_resolved c (Settled (BalanceSettles c' (Resolves v))) = (c' = c)"
| "is_balance_resolved c e = False"



definition owned :: "collection \<Rightarrow> interact_state \<Rightarrow> nat list" where
  "owned c ui = (case c of Cranium \<Rightarrow> craniumBalance ui | Stallion \<Rightarrow> stallionBalance ui)"

text \<open>
  What holds of every state a Fetch can reach. The state of a \<open>Promise.all\<close> is
  determined by the promises it is over (\<open>all_state_of\<close>); the token promises exist,
  and \<open>then\<close> is attached to their \<open>Promise.all\<close>, according to the two balances
  (\<open>expected_len\<close>, \<open>attached\<close>); the lookups issued for a collection are those of the
  indices of its token promises; and the setter of a collection has been called, once
  and with the values under \<open>Number\<close>, exactly when all its token promises are fulfilled.
\<close>

definition all_state_of :: "outcome option list \<Rightarrow> all_state" where
  "all_state_of ps =
     (case first_rejection ps of
        Some e \<Rightarrow> AllRejected
      | None \<Rightarrow> (case fulfilled_values ps of Some vs \<Rightarrow> AllFulfilled | None \<Rightarrow> Waiting))"

definition balances_fulfilled :: "fetch_state \<Rightarrow> (uint256 \<times> uint256) option" where
  "balances_fulfilled st =
     (case balance_promise st Cranium of
        Some (Resolves cb) \<Rightarrow>
          (case balance_promise st Stallion of
             Some (Resolves sb) \<Rightarrow> Some (cb, sb)
           | _ \<Rightarrow> None)
      | _ \<Rightarrow> None)"

definition expected_len :: "fetch_state \<Rightarrow> collection \<Rightarrow> nat" where
  "expected_len st c =
     (case balances_fulfilled st of
        None \<Rightarrow> 0
      | Some (cb, sb) \<Rightarrow>
          if accepts (fetch_engine st) (Number cb)
          then (case c of Cranium \<Rightarrow> Number cb
                | Stallion \<Rightarrow> if accepts (fetch_engine st) (Number sb) then Number sb else 0)
          else 0)"

definition attached :: "fetch_state \<Rightarrow> bool" where
  "attached st =
     (case balances_fulfilled st of
        None \<Rightarrow> False
      | Some (cb, sb) \<Rightarrow>
          accepts (fetch_engine st) (Number cb) \<and> accepts (fetch_engine st) (Number sb))"

definition expected_sets :: "fetch_state \<Rightarrow> collection \<Rightarrow> effect list" where
  "expected_sets st c =
     (if attached st
      then (case fulfilled_values (token_promises st c) of
              Some vs \<Rightarrow> [SetBalance c (map Number vs)]
            | None \<Rightarrow> [])
      else [])"

definition fetch_inv :: "engine \<Rightarrow> string \<Rightarrow> fetch_state \<Rightarrow> bool" where
  "fetch_inv eng a st \<longleftrightarrow>
     fetch_engine st = eng \<and> fetch_account st = a
     \<and> balances_all st = all_state_of [balance_promise st Cranium, balance_promise st Stallion]
     \<and> (\<forall>c. length (token_promises st c) = expected_len st c
            \<and> filter (is_lookup c) (trace st)
                = map (lookup_call a c) [0..<length (token_promises st c)]
            \<and> tokens_all st c
                = (if attached st then all_state_of (token_promises st c) else NotAttached)
            \<and> filter (is_set c) (trace st) = expected_sets st c)"

text \<open>
  The effects of the \<open>catch\<close> callback, and those of the reactions of a collection's
  \<open>Promise.all\<close> at the moment it settles.
\<close>

definition alert_effects :: "thrown \<Rightarrow> effect list" where
  "alert_effects e =
     [ConsoleLog e, Alert ''Failure fetching Cranium & Stallion balance!'' (error_message e)]"

definition reaction_effects :: "collection \<Rightarrow> outcome option list \<Rightarrow> effect list" where
  "reaction_effects c ps =
     (case first_rejection ps of
        Some e \<Rightarrow> [UnhandledRejection e]
      | None \<Rightarrow> (case fulfilled_values ps of Some vs \<Rightarrow> [SetBalance c (map Number vs)] | None \<Rightarrow> []))"

text \<open>
  The order of a trace: every lookup in it comes after an effect in which the provider
  fulfilled the Cranium balance query and one in which it fulfilled the Stallion one.
\<close>

definition is_lookup_any :: "effect \<Rightarrow> bool" where
  "is_lookup_any e \<longleftrightarrow> is_lookup Cranium e \<or> is_lookup Stallion e"

definition balance_resolved_in :: "collection \<Rightarrow> effect list \<Rightarrow> bool" where
  "balance_resolved_in c tr \<longleftrightarrow> (\<exists>x \<in> set tr. is_balance_resolved c x)"





text \<open>
  What holds of the marker after every event: it is empty or refers to a connector of
  the registry, and it never refers to the context's active connector.
\<close>

definition marker_inv :: "(ConnectorNames \<Rightarrow> 'c) \<Rightarrow> ('c, 'l) app_state \<Rightarrow> bool" where
  "marker_inv byName st \<longleftrightarrow>
     (activatingConnector st = None \<or> (\<exists>name. activatingConnector st = Some (byName name)))
     \<and> (\<forall>c. activatingConnector st = Some c \<longrightarrow> connector (ctx st) \<noteq> Some c)"


section \<open>Theorems about the connector selector\<close>

text \<open>
  C7: every user-rejection error, whichever of the three connector packages (injected,
  WalletConnect, Frame) it comes from, is mapped to the one string
  "Please authorize this website to access your Ethereum account.", and every error is
  mapped to one of the four fixed messages, which are four different strings.
\<close>

theorem getErrorMessage_user_rejection:
  "getErrorMessage UserRejectedRequestErrorInjected
     = ''Please authorize this website to access your Ethereum account.''
   \<and> getErrorMessage UserRejectedRequestErrorWalletConnect
     = ''Please authorize this website to access your Ethereum account.''
   \<and> getErrorMessage UserRejectedRequestErrorFrame
     = ''Please authorize this website to access your Ethereum account.''
   \<and> (\<forall>e. is_user_rejection e \<longrightarrow> getErrorMessage e = msg_authorize)
   \<and> (\<forall>e. getErrorMessage e \<in> {msg_no_provider, msg_unsupported_chain, msg_authorize, msg_unknown})
   \<and> distinct [msg_no_provider, msg_unsupported_chain, msg_authorize, msg_unknown]"
proof -
  have d: "distinct [msg_no_provider, msg_unsupported_chain, msg_authorize, msg_unknown]"
    by (simp add: msg_no_provider_def msg_unsupported_chain_def msg_authorize_def msg_unknown_def)
  have four: "getErrorMessage e \<in> {msg_no_provider, msg_unsupported_chain, msg_authorize, msg_unknown}" for e
    by (cases e) simp_all
  have rej: "is_user_rejection e \<longrightarrow> getErrorMessage e = msg_authorize" for e
    by (auto simp: is_user_rejection_def)
  have three: "getErrorMessage UserRejectedRequestErrorInjected
     = ''Please authorize this website to access your Ethereum account.''
   \<and> getErrorMessage UserRejectedRequestErrorWalletConnect
     = ''Please authorize this website to access your Ethereum account.''
   \<and> getErrorMessage UserRejectedRequestErrorFrame
     = ''Please authorize this website to access your Ethereum account.''"
    by (simp add: msg_authorize_def)
  from three four rej d show ?thesis by blast
qed

theorem getErrorMessage_user_rejection_witness:
  "is_user_rejection UserRejectedRequestErrorFrame
   \<and> getErrorMessage UserRejectedRequestErrorFrame = msg_authorize
   \<and> getErrorMessage (OtherError ''boom'') = msg_unknown"
  using getErrorMessage_user_rejection
  by (simp add: is_user_rejection_def)

text \<open>
  C6: for every registry entry the button is disabled if and only if the eager-connect
  attempt has not completed, or some connector is mid-activation, or the entry's
  connector is the active connector, or the context holds an error; and the rendered
  list has, for each key of the registry in order, a button with that flag.
\<close>

theorem connector_button_disabled_iff:
  "(disabled byName st name \<longleftrightarrow>
      eager_connect_incomplete st \<or> some_connector_mid_activation st
      \<or> entry_is_active_connector byName st name \<or> context_holds_error st)
   \<and> map btn_disabled (connector_buttons byName st)
       = map (\<lambda>name. eager_connect_incomplete st \<or> some_connector_mid_activation st
                \<or> entry_is_active_connector byName st name \<or> context_holds_error st)
           connectorsByName_keys"
proof -
  have one: "disabled byName st name \<longleftrightarrow>
      eager_connect_incomplete st \<or> some_connector_mid_activation st
      \<or> entry_is_active_connector byName st name \<or> context_holds_error st" for name
    unfolding disabled_def truthy_obj_def connected_def eager_connect_incomplete_def
      some_connector_mid_activation_def entry_is_active_connector_def context_holds_error_def
    by auto
  have "map btn_disabled (connector_buttons byName st)
          = map (disabled byName st) connectorsByName_keys"
    by (simp add: connector_buttons_def connector_button_def comp_def)
  with one show ?thesis by simp
qed

theorem connector_button_disabled_iff_witness:
  "disabled (\<lambda>n. n) (app_init\<lparr>triedEager := True\<rparr> :: (ConnectorNames, unit) app_state) Ledger = False
   \<and> disabled (\<lambda>n. n) (app_init :: (ConnectorNames, unit) app_state) Ledger = True
   \<and> disabled (\<lambda>n. n)
        (app_init\<lparr>triedEager := True, activatingConnector := Some Trezor\<rparr> :: (ConnectorNames, unit) app_state)
        Ledger = True"
  using connector_button_disabled_iff [of "\<lambda>n. n" "app_init\<lparr>triedEager := True\<rparr> :: (ConnectorNames, unit) app_state" Ledger]
    connector_button_disabled_iff [of "\<lambda>n. n" "app_init :: (ConnectorNames, unit) app_state" Ledger]
    connector_button_disabled_iff [of "\<lambda>n. n"
       "app_init\<lparr>triedEager := True, activatingConnector := Some Trezor\<rparr> :: (ConnectorNames, unit) app_state" Ledger]
  by (simp add: app_init_def eager_connect_incomplete_def some_connector_mid_activation_def
      entry_is_active_connector_def context_holds_error_def)


lemma activating_effect_marker:
  "activatingConnector (activating_effect st) = None
   \<or> activatingConnector (activating_effect st) = activatingConnector st"
  by (simp add: activating_effect_def)

lemma activating_effect_ctx: "ctx (activating_effect st) = ctx st"
  by (simp add: activating_effect_def)

lemma activating_effect_distinct:
  "activatingConnector (activating_effect st) = Some c \<Longrightarrow> connector (ctx st) \<noteq> Some c"
  by (auto simp: activating_effect_def truthy_obj_def split: if_splits)

lemma app_update_marker:
  "activatingConnector (app_update byName ev st) = activatingConnector st
   \<or> (\<exists>name. activatingConnector (app_update byName ev st) = Some (byName name))"
  by (cases ev) (auto simp: connector_onClick_def)

lemma app_step_inv: "marker_inv byName st \<Longrightarrow> marker_inv byName (app_step byName ev st)"
proof -
  assume inv: "marker_inv byName st"
  let ?u = "app_update byName ev st"
  have reg: "activatingConnector ?u = None \<or> (\<exists>name. activatingConnector ?u = Some (byName name))"
    using inv app_update_marker [of byName ev st] by (auto simp: marker_inv_def)
  have reg': "activatingConnector (activating_effect ?u) = None
      \<or> (\<exists>name. activatingConnector (activating_effect ?u) = Some (byName name))"
    using reg activating_effect_marker [of ?u] by auto
  have "\<forall>c. activatingConnector (activating_effect ?u) = Some c
          \<longrightarrow> connector (ctx (activating_effect ?u)) \<noteq> Some c"
    using activating_effect_distinct [of ?u] by (simp add: activating_effect_ctx)
  with reg' show ?thesis
    by (simp add: marker_inv_def app_step_def)
qed

lemma app_run_inv: "marker_inv byName st \<Longrightarrow> marker_inv byName (app_run byName evs st)"
  by (induction evs arbitrary: st) (simp_all add: app_step_inv)

lemma app_init_inv: "marker_inv byName app_init"
  by (simp add: marker_inv_def app_init_def)

text \<open>
  C8: the activation-in-progress marker is one optional connector reference (its type
  holds at most one); the effect clears it when the context's active connector equals
  the marked connector and leaves the state alone otherwise; a click on an enabled
  button marks that button's connector; and after every sequence of clicks, context
  updates and eager-connect completions from the mounted state, the marker is empty or
  a connector of the registry and is never equal to the active connector.
\<close>

theorem activatingConnector_cleared:
  "(activatingConnector st = Some c \<and> connector (ctx st) = Some c
      \<longrightarrow> activatingConnector (activating_effect st) = None)
   \<and> (activatingConnector st \<noteq> connector (ctx st) \<longrightarrow> activating_effect st = st)
   \<and> (\<not> disabled byName st name
      \<longrightarrow> activatingConnector (app_step byName (ClickConnector name) st) = Some (byName name))
   \<and> marker_inv byName (app_run byName evs app_init)"
proof -
  have a: "activatingConnector st = Some c \<and> connector (ctx st) = Some c
      \<longrightarrow> activatingConnector (activating_effect st) = None"
    by (simp add: activating_effect_def truthy_obj_def)
  have b: "activatingConnector st \<noteq> connector (ctx st) \<longrightarrow> activating_effect st = st"
    by (simp add: activating_effect_def)
  have c: "\<not> disabled byName st name
      \<longrightarrow> activatingConnector (app_step byName (ClickConnector name) st) = Some (byName name)"
    by (auto simp: app_step_def activating_effect_def connector_onClick_def disabled_def
        connected_def)
  from a b c app_run_inv [OF app_init_inv] show ?thesis by blast
qed

theorem activatingConnector_cleared_witness:
  "activatingConnector
     (app_run (\<lambda>n. n) [EagerTried, ClickConnector Ledger]
        (app_init :: (ConnectorNames, unit) app_state)) = Some Ledger
   \<and> activatingConnector
     (app_run (\<lambda>n. n)
        [EagerTried, ClickConnector Ledger,
         ContextUpdate \<lparr>connector = Some Ledger, library = Some (), chainId = Some 1,
                        account = Some ''0xabc'', active = True, error = None\<rparr>]
        (app_init :: (ConnectorNames, unit) app_state)) = None
   \<and> marker_inv (\<lambda>n. n)
       (app_run (\<lambda>n. n) [EagerTried, ClickConnector Ledger]
          (app_init :: (ConnectorNames, unit) app_state))"
proof -
  let ?s1 = "app_step (\<lambda>n. n) EagerTried (app_init :: (ConnectorNames, unit) app_state)"
  let ?c = "\<lparr>connector = Some Ledger, library = Some (), chainId = Some (1::nat),
             account = Some ''0xabc'', active = True, error = None\<rparr>"
  let ?s2 = "app_step (\<lambda>n. n) (ClickConnector Ledger) ?s1"
  let ?s3 = "(app_update (\<lambda>n. n) (ContextUpdate ?c) ?s2) :: (ConnectorNames, unit) app_state"
  have en: "\<not> disabled (\<lambda>n. n) ?s1 Ledger"
    by (simp add: app_step_def activating_effect_def app_init_def disabled_def truthy_obj_def
        connected_def)
  have m2: "activatingConnector ?s2 = Some Ledger"
    using activatingConnector_cleared [of ?s1 Ledger "\<lambda>n. n" Ledger "[]"] en by blast
  have pre: "activatingConnector ?s3 = Some Ledger \<and> connector (ctx ?s3) = Some Ledger"
    using m2 by simp
  have m3: "activatingConnector (activating_effect ?s3) = None"
    using activatingConnector_cleared [of ?s3 Ledger "\<lambda>n. n" Ledger "[]"] pre by blast
  have inv: "marker_inv (\<lambda>n. n)
       (app_run (\<lambda>n. n) [EagerTried, ClickConnector Ledger]
          (app_init :: (ConnectorNames, unit) app_state))"
    using activatingConnector_cleared
      [of "app_init :: (ConnectorNames, unit) app_state" Ledger "\<lambda>n. n" Ledger
          "[EagerTried, ClickConnector Ledger]"]
    by blast
  from m2 m3 inv show ?thesis
    by (simp add: app_step_def)
qed


section \<open>Theorems about the staking panel's controls\<close>

text \<open>
  C9: when the provider library or the account is absent (more generally, whenever
  \<open>props.library && props.account\<close> is falsy, which an empty account string also makes
  it), \<open>Interact\<close> renders nothing, so no action (Approve, Fetch, a checkbox, Stake)
  reaches a handler; with both present the three buttons are rendered.
\<close>

theorem Interact_renders_nothing:
  "(props_library props = None \<or> props_account props = None
      \<longrightarrow> Interact props st = [] \<and> (\<forall>act. invoke props st act = None))
   \<and> (\<not> panel_shown props \<longrightarrow> Interact props st = [] \<and> (\<forall>act. invoke props st act = None))
   \<and> (panel_shown props
      \<longrightarrow> {ApproveCraniumsButton, ApproveStallionsButton, FetchButton,
            StakeButton (stake_disabled st)} \<subseteq> set (Interact props st))"
proof -
  have absent: "props_library props = None \<or> props_account props = None \<Longrightarrow> \<not> panel_shown props"
    by (auto simp: panel_shown_def truthy_obj_def truthy_str_def)
  have hidden: "\<not> panel_shown props \<Longrightarrow> Interact props st = [] \<and> (\<forall>act. invoke props st act = None)"
    by (simp add: Interact_def invoke_def)
  have shown: "panel_shown props
      \<Longrightarrow> {ApproveCraniumsButton, ApproveStallionsButton, FetchButton,
            StakeButton (stake_disabled st)} \<subseteq> set (Interact props st)"
    by (simp add: Interact_def)
  from absent hidden shown show ?thesis by blast
qed

theorem Interact_renders_nothing_witness:
  "Interact \<lparr>props_library = (None :: unit option), props_account = Some ''0xabc''\<rparr> interact_init = []
   \<and> invoke \<lparr>props_library = (None :: unit option), props_account = Some ''0xabc''\<rparr> interact_init PressFetch = None
   \<and> Interact \<lparr>props_library = Some (), props_account = None\<rparr> interact_init = []
   \<and> FetchButton \<in> set (Interact \<lparr>props_library = Some (), props_account = Some ''0xabc''\<rparr> interact_init)"
proof -
  let ?p1 = "\<lparr>props_library = (None :: unit option), props_account = Some ''0xabc''\<rparr>"
  let ?p2 = "\<lparr>props_library = Some (), props_account = None\<rparr>"
  let ?p3 = "\<lparr>props_library = Some (), props_account = Some ''0xabc''\<rparr>"
  have h1: "props_library ?p1 = None \<or> props_account ?p1 = None" by simp
  have h2: "props_library ?p2 = None \<or> props_account ?p2 = None" by simp
  have h3: "panel_shown ?p3" by (simp add: panel_shown_def truthy_obj_def truthy_str_def)
  from h1 Interact_renders_nothing [of ?p1 interact_init]
  have r1: "Interact ?p1 interact_init = [] \<and> invoke ?p1 interact_init PressFetch = None" by blast
  from h2 Interact_renders_nothing [of ?p2 interact_init]
  have r2: "Interact ?p2 interact_init = []" by blast
  from h3 Interact_renders_nothing [of ?p3 interact_init]
  have r3: "FetchButton \<in> set (Interact ?p3 interact_init)" by blast
  from r1 r2 r3 show ?thesis by blast
qed

text \<open>
  C1: the Stake button is disabled exactly when the two checked collections do not
  satisfy the pairing precondition: whenever their sizes differ or either is empty
  (so also when both are empty), and enabled otherwise; the panel renders the button
  with that flag; a click on the enabled button calls the staking contract's \<open>stake\<close>
  with the two checked id sequences, and the disabled button delivers no click.
\<close>

theorem stake_button_disabled_iff:
  "(stake_disabled st \<longleftrightarrow> \<not> pairing_precondition (checkedCraniums st) (checkedStallions st))
   \<and> (stake_disabled st \<longleftrightarrow>
        length (checkedCraniums st) \<noteq> length (checkedStallions st)
        \<or> checkedCraniums st = [] \<or> checkedStallions st = [])
   \<and> (checkedCraniums st = [] \<and> checkedStallions st = [] \<longrightarrow> stake_disabled st)
   \<and> (panel_shown props \<longrightarrow> last (Interact props st) = StakeButton (stake_disabled st))
   \<and> (panel_shown props \<and> props_account props = Some a \<and> \<not> stake_disabled st
      \<longrightarrow> invoke props st PressStake
          = Some (st, [Call MAINNET_STAKING_CONTRACT a
                         (stake (checkedCraniums st) (checkedStallions st))]))
   \<and> (stake_disabled st \<longrightarrow> invoke props st PressStake = None)"
proof -
  have p: "stake_disabled st \<longleftrightarrow> \<not> pairing_precondition (checkedCraniums st) (checkedStallions st)"
    by (auto simp: stake_disabled_def pairing_precondition_def)
  have q: "stake_disabled st \<longleftrightarrow>
        length (checkedCraniums st) \<noteq> length (checkedStallions st)
        \<or> checkedCraniums st = [] \<or> checkedStallions st = []"
    by (simp add: stake_disabled_def)
  have r: "panel_shown props \<longrightarrow> last (Interact props st) = StakeButton (stake_disabled st)"
    by (simp add: Interact_def)
  have c: "panel_shown props \<and> props_account props = Some a \<and> \<not> stake_disabled st
      \<longrightarrow> invoke props st PressStake
          = Some (st, [Call MAINNET_STAKING_CONTRACT a
                         (stake (checkedCraniums st) (checkedStallions st))])"
    by (simp add: invoke_def stake_onClick_def)
  have d: "stake_disabled st \<longrightarrow> invoke props st PressStake = None"
    by (simp add: invoke_def split: option.splits)
  from p q r c d show ?thesis by blast
qed

theorem stake_button_disabled_iff_witness:
  "stake_disabled interact_init
   \<and> stake_disabled (interact_init\<lparr>checkedCraniums := [4, 9], checkedStallions := [7]\<rparr>)
   \<and> \<not> stake_disabled (interact_init\<lparr>checkedCraniums := [4, 9], checkedStallions := [7, 2]\<rparr>)
   \<and> invoke \<lparr>props_library = Some (), props_account = Some ''0xabc''\<rparr>
        (interact_init\<lparr>checkedCraniums := [4, 9], checkedStallions := [7, 2]\<rparr>) PressStake
      = Some (interact_init\<lparr>checkedCraniums := [4, 9], checkedStallions := [7, 2]\<rparr>,
              [Call MAINNET_STAKING_CONTRACT ''0xabc'' (stake [4, 9] [7, 2])])"
proof -
  let ?p = "\<lparr>props_library = Some (), props_account = Some ''0xabc''\<rparr>"
  let ?s0 = interact_init
  let ?s1 = "interact_init\<lparr>checkedCraniums := [4, 9], checkedStallions := [7]\<rparr>"
  let ?s2 = "interact_init\<lparr>checkedCraniums := [4, 9], checkedStallions := [7, 2]\<rparr>"
  have shown: "panel_shown ?p" by (simp add: panel_shown_def truthy_obj_def truthy_str_def)
  have e0: "checkedCraniums ?s0 = [] \<and> checkedStallions ?s0 = []"
    by (simp add: interact_init_def)
  have e1: "length (checkedCraniums ?s1) \<noteq> length (checkedStallions ?s1)"
    by simp
  have e2: "\<not> (length (checkedCraniums ?s2) \<noteq> length (checkedStallions ?s2)
        \<or> checkedCraniums ?s2 = [] \<or> checkedStallions ?s2 = [])"
    by simp
  have d0: "stake_disabled ?s0"
    using stake_button_disabled_iff [of ?s0 ?p "''0xabc''"] e0 by blast
  have d1: "stake_disabled ?s1"
    using stake_button_disabled_iff [of ?s1 ?p "''0xabc''"] e1 by blast
  have d2: "\<not> stake_disabled ?s2"
    using stake_button_disabled_iff [of ?s2 ?p "''0xabc''"] e2 by blast
  have acc: "props_account ?p = Some ''0xabc''" by simp
  have "invoke ?p ?s2 PressStake
      = Some (?s2, [Call MAINNET_STAKING_CONTRACT ''0xabc''
                      (stake (checkedCraniums ?s2) (checkedStallions ?s2))])"
    using stake_button_disabled_iff [of ?s2 ?p "''0xabc''"] shown d2 acc by blast
  with d0 d1 d2 show ?thesis by simp
qed


lemma filter_neq_self: "filter (\<lambda>e. e \<noteq> n) xs = xs \<longleftrightarrow> n \<notin> set xs"
  by (auto simp: filter_id_conv)

text \<open>
  C5, as the specification states it, fails: with the id already in the checked
  array (here 5 in the array that holds 5), checking and then unchecking it leaves the
  empty array, not the prior state.
\<close>

theorem check_uncheck_not_prior_state:
  "cranium_onChange False 5
     (cranium_onChange True 5
        \<lparr>craniumBalance = [5], stallionBalance = [], checkedCraniums = [5], checkedStallions = []\<rparr>)
   \<noteq> \<lparr>craniumBalance = [5], stallionBalance = [], checkedCraniums = [5], checkedStallions = []\<rparr>"
  by (simp add: cranium_onChange_def)

text \<open>
  C5, amended: checking and then unchecking an id leaves the checked array as it was
  before with every occurrence of that id removed, and nothing else of the state
  changed; this is the prior state exactly when the id was not in the checked array
  before. The same holds for both collections.
\<close>

theorem check_uncheck_filters:
  "cranium_onChange False n (cranium_onChange True n st)
     = st\<lparr>checkedCraniums := filter (\<lambda>e. e \<noteq> n) (checkedCraniums st)\<rparr>
   \<and> (cranium_onChange False n (cranium_onChange True n st) = st \<longleftrightarrow> n \<notin> set (checkedCraniums st))
   \<and> stallion_onChange False n (stallion_onChange True n st)
     = st\<lparr>checkedStallions := filter (\<lambda>e. e \<noteq> n) (checkedStallions st)\<rparr>
   \<and> (stallion_onChange False n (stallion_onChange True n st) = st \<longleftrightarrow> n \<notin> set (checkedStallions st))"
proof -
  have c: "cranium_onChange False n (cranium_onChange True n st)
     = st\<lparr>checkedCraniums := filter (\<lambda>e. e \<noteq> n) (checkedCraniums st)\<rparr>"
    by (simp add: cranium_onChange_def)
  have s: "stallion_onChange False n (stallion_onChange True n st)
     = st\<lparr>checkedStallions := filter (\<lambda>e. e \<noteq> n) (checkedStallions st)\<rparr>"
    by (simp add: stallion_onChange_def)
  have ceq: "st\<lparr>checkedCraniums := xs\<rparr> = st \<longleftrightarrow> xs = checkedCraniums st" for xs
    by (cases st) auto
  have seq: "st\<lparr>checkedStallions := xs\<rparr> = st \<longleftrightarrow> xs = checkedStallions st" for xs
    by (cases st) auto
  show ?thesis
    by (simp only: c s ceq seq filter_neq_self simp_thms)
qed

theorem check_uncheck_filters_witness:
  "cranium_onChange False 5 (cranium_onChange True 5 (interact_init\<lparr>checkedCraniums := [3]\<rparr>))
     = interact_init\<lparr>checkedCraniums := [3]\<rparr>
   \<and> checkedCraniums
       (cranium_onChange False 5 (cranium_onChange True 5 (interact_init\<lparr>checkedCraniums := [5, 3]\<rparr>)))
     = [3]"
proof -
  let ?a = "interact_init\<lparr>checkedCraniums := [3]\<rparr>"
  let ?b = "interact_init\<lparr>checkedCraniums := [5, 3]\<rparr>"
  have fresh: "5 \<notin> set (checkedCraniums ?a)" by simp
  have one: "cranium_onChange False 5 (cranium_onChange True 5 ?a) = ?a"
    using check_uncheck_filters [of 5 ?a] fresh by blast
  have "cranium_onChange False 5 (cranium_onChange True 5 ?b)
          = ?b\<lparr>checkedCraniums := filter (\<lambda>e. e \<noteq> 5) (checkedCraniums ?b)\<rparr>"
    using check_uncheck_filters [of 5 ?b] by blast
  then have two: "checkedCraniums (cranium_onChange False 5 (cranium_onChange True 5 ?b)) = [3]"
    by simp
  from one two show ?thesis by simp
qed

text \<open>
  C10: unchecking an id removes every occurrence of it from the checked array (the
  array is filtered, and the id is no longer in it), while checking puts the id at the
  front without a membership test, so checking an id that is already there leaves it in
  the array one more time than before, at least twice. The same holds for both
  collections, and neither handler touches the rest of the state.
\<close>

theorem uncheck_filters_check_prepends:
  "cranium_onChange False n st = st\<lparr>checkedCraniums := filter (\<lambda>e. e \<noteq> n) (checkedCraniums st)\<rparr>
   \<and> n \<notin> set (checkedCraniums (cranium_onChange False n st))
   \<and> cranium_onChange True n st = st\<lparr>checkedCraniums := n # checkedCraniums st\<rparr>
   \<and> count_list (checkedCraniums (cranium_onChange True n st)) n
       = Suc (count_list (checkedCraniums st) n)
   \<and> (n \<in> set (checkedCraniums st)
      \<longrightarrow> 2 \<le> count_list (checkedCraniums (cranium_onChange True n st)) n
          \<and> \<not> distinct (checkedCraniums (cranium_onChange True n st)))
   \<and> stallion_onChange False n st = st\<lparr>checkedStallions := filter (\<lambda>e. e \<noteq> n) (checkedStallions st)\<rparr>
   \<and> n \<notin> set (checkedStallions (stallion_onChange False n st))
   \<and> stallion_onChange True n st = st\<lparr>checkedStallions := n # checkedStallions st\<rparr>
   \<and> count_list (checkedStallions (stallion_onChange True n st)) n
       = Suc (count_list (checkedStallions st) n)
   \<and> (n \<in> set (checkedStallions st)
      \<longrightarrow> 2 \<le> count_list (checkedStallions (stallion_onChange True n st)) n
          \<and> \<not> distinct (checkedStallions (stallion_onChange True n st)))"
proof -
  have pos: "n \<in> set xs \<Longrightarrow> 0 < count_list xs n" for xs :: "nat list"
    by (induction xs) auto
  have c: "n \<in> set (checkedCraniums st)
      \<longrightarrow> 2 \<le> count_list (checkedCraniums (cranium_onChange True n st)) n
          \<and> \<not> distinct (checkedCraniums (cranium_onChange True n st))"
    using pos [of "checkedCraniums st"] by (auto simp: cranium_onChange_def)
  have s: "n \<in> set (checkedStallions st)
      \<longrightarrow> 2 \<le> count_list (checkedStallions (stallion_onChange True n st)) n
          \<and> \<not> distinct (checkedStallions (stallion_onChange True n st))"
    using pos [of "checkedStallions st"] by (auto simp: stallion_onChange_def)
  have rest: "cranium_onChange False n st = st\<lparr>checkedCraniums := filter (\<lambda>e. e \<noteq> n) (checkedCraniums st)\<rparr>
   \<and> n \<notin> set (checkedCraniums (cranium_onChange False n st))
   \<and> cranium_onChange True n st = st\<lparr>checkedCraniums := n # checkedCraniums st\<rparr>
   \<and> count_list (checkedCraniums (cranium_onChange True n st)) n
       = Suc (count_list (checkedCraniums st) n)
   \<and> stallion_onChange False n st = st\<lparr>checkedStallions := filter (\<lambda>e. e \<noteq> n) (checkedStallions st)\<rparr>
   \<and> n \<notin> set (checkedStallions (stallion_onChange False n st))
   \<and> stallion_onChange True n st = st\<lparr>checkedStallions := n # checkedStallions st\<rparr>
   \<and> count_list (checkedStallions (stallion_onChange True n st)) n
       = Suc (count_list (checkedStallions st) n)"
    by (simp add: cranium_onChange_def stallion_onChange_def)
  from c s rest show ?thesis by blast
qed

theorem uncheck_filters_check_prepends_witness:
  "checkedCraniums (cranium_onChange False 5 (interact_init\<lparr>checkedCraniums := [5, 3, 5]\<rparr>)) = [3]
   \<and> checkedCraniums (cranium_onChange True 5 (interact_init\<lparr>checkedCraniums := [5, 3]\<rparr>)) = [5, 5, 3]
   \<and> 2 \<le> count_list (checkedCraniums (cranium_onChange True 5 (interact_init\<lparr>checkedCraniums := [5, 3]\<rparr>))) 5"
proof -
  let ?a = "interact_init\<lparr>checkedCraniums := [5, 3, 5]\<rparr>"
  let ?b = "interact_init\<lparr>checkedCraniums := [5, 3]\<rparr>"
  have mem: "5 \<in> set (checkedCraniums ?b)" by simp
  have "cranium_onChange False 5 ?a = ?a\<lparr>checkedCraniums := filter (\<lambda>e. e \<noteq> 5) (checkedCraniums ?a)\<rparr>"
    using uncheck_filters_check_prepends [of 5 ?a] by blast
  then have one: "checkedCraniums (cranium_onChange False 5 ?a) = [3]" by simp
  have "cranium_onChange True 5 ?b = ?b\<lparr>checkedCraniums := 5 # checkedCraniums ?b\<rparr>"
    using uncheck_filters_check_prepends [of 5 ?b] by blast
  then have two: "checkedCraniums (cranium_onChange True 5 ?b) = [5, 5, 3]" by simp
  have three: "2 \<le> count_list (checkedCraniums (cranium_onChange True 5 ?b)) 5"
    using uncheck_filters_check_prepends [of 5 ?b] mem by blast
  from one two three show ?thesis by blast
qed



section \<open>What every reachable state of a Fetch satisfies\<close>

lemma first_rejection_None_iff:
  "first_rejection ps = None \<longleftrightarrow> (\<forall>e. Some (Rejects e) \<notin> set ps)"
  by (induction ps rule: first_rejection.induct) auto

lemma first_rejection_mem: "first_rejection ps = Some e \<Longrightarrow> Some (Rejects e) \<in> set ps"
  by (induction ps rule: first_rejection.induct) auto

lemma fulfilled_values_Some_iff:
  "fulfilled_values ps = Some vs \<longleftrightarrow> ps = map (\<lambda>v. Some (Resolves v)) vs"
  by (induction ps arbitrary: vs rule: fulfilled_values.induct) auto

lemma fulfilled_values_None_iff:
  "fulfilled_values ps = None \<longleftrightarrow> (\<exists>p \<in> set ps. p = None \<or> (\<exists>e. p = Some (Rejects e)))"
  by (induction ps rule: fulfilled_values.induct) auto

lemma first_rejection_pending [simp]: "first_rejection (map (\<lambda>i. None) xs) = None"
  by (induction xs) auto

lemma fulfilled_values_pending [simp]:
  "fulfilled_values (map (\<lambda>i. None) xs) = (if xs = [] then Some [] else None)"
  by (cases xs) auto

lemma Number_small: "unat v < 2 ^ 53 \<Longrightarrow> Number v = unat v"
  by (simp add: Number_def js_Number_def)

lemma is_lookup_lookup_call [simp]: "is_lookup c (lookup_call a c' i) \<longleftrightarrow> c' = c"
  by (cases c; cases c') (simp_all add: lookup_call_def)

lemma is_set_lookup_call [simp]: "\<not> is_set c (lookup_call a c' i)"
  by (simp add: lookup_call_def)

lemma filter_lookup_calls [simp]:
  "filter (is_lookup c) (map (lookup_call a c') xs) = (if c' = c then map (lookup_call a c') xs else [])"
  by (induction xs) auto

lemma filter_set_lookup_calls [simp]:
  "filter (is_set c) (map (lookup_call a c') xs) = []"
  by (induction xs) auto

lemma emit_fields [simp]:
  "fetch_account (emit es st) = fetch_account st"
  "balance_promise (emit es st) = balance_promise st"
  "balances_all (emit es st) = balances_all st"
  "token_promises (emit es st) = token_promises st"
  "tokens_all (emit es st) = tokens_all st"
  "trace (emit es st) = trace st @ es"
  "fetch_engine (emit es st) = fetch_engine st"
  by (simp_all add: emit_def)

lemma catch_handler_fields [simp]:
  "fetch_account (catch_handler e st) = fetch_account st"
  "balance_promise (catch_handler e st) = balance_promise st"
  "balances_all (catch_handler e st) = balances_all st"
  "token_promises (catch_handler e st) = token_promises st"
  "tokens_all (catch_handler e st) = tokens_all st"
  "trace (catch_handler e st)
     = trace st @ [ConsoleLog e, Alert ''Failure fetching Cranium & Stallion balance!'' (error_message e)]"
  "fetch_engine (catch_handler e st) = fetch_engine st"
  by (simp_all add: catch_handler_def)

lemma issue_lookups_fields [simp]:
  "fetch_account (issue_lookups c xs st) = fetch_account st"
  "balance_promise (issue_lookups c xs st) = balance_promise st"
  "balances_all (issue_lookups c xs st) = balances_all st"
  "token_promises (issue_lookups c xs st) = (token_promises st)(c := map (\<lambda>i. None) xs)"
  "tokens_all (issue_lookups c xs st) = tokens_all st"
  "trace (issue_lookups c xs st) = trace st @ map (lookup_call (fetch_account st) c) xs"
  "fetch_engine (issue_lookups c xs st) = fetch_engine st"
  by (simp_all add: issue_lookups_def)

lemma tokens_all_reaction_fields [simp]:
  "fetch_account (tokens_all_reaction c st) = fetch_account st"
  "balance_promise (tokens_all_reaction c st) = balance_promise st"
  "balances_all (tokens_all_reaction c st) = balances_all st"
  "token_promises (tokens_all_reaction c st) = token_promises st"
  "tokens_all (tokens_all_reaction c st)
     = (if tokens_all st c = Waiting
        then (tokens_all st)(c := all_state_of (token_promises st c)) else tokens_all st)"
  "trace (tokens_all_reaction c st)
     = trace st @ (if tokens_all st c = Waiting then reaction_effects c (token_promises st c) else [])"
  "fetch_engine (tokens_all_reaction c st) = fetch_engine st"
  by (auto simp: tokens_all_reaction_def all_state_of_def reaction_effects_def split: option.splits)

lemma then_handler_fields [simp]:
  "fetch_account (then_handler cb sb st) = fetch_account st"
  "balance_promise (then_handler cb sb st) = balance_promise st"
  "balances_all (then_handler cb sb st) = balances_all st"
  "fetch_engine (then_handler cb sb st) = fetch_engine st"
  by (simp_all add: then_handler_def Let_def split: sum.splits)

lemma all_state_of_pending [simp]:
  "all_state_of (map (\<lambda>i. None) xs) = (if xs = [] then AllFulfilled else Waiting)"
  by (simp add: all_state_of_def)

lemma reaction_effects_pending [simp]:
  "reaction_effects c (map (\<lambda>i. None) xs) = (if xs = [] then [SetBalance c []] else [])"
  by (simp add: reaction_effects_def)

lemma then_handler_rest:
  "token_promises (then_handler cb sb st)
     = (if accepts (fetch_engine st) (Number cb)
        then (if accepts (fetch_engine st) (Number sb)
              then (token_promises st)(Cranium := map (\<lambda>i. None) [0..<Number cb],
                                        Stallion := map (\<lambda>i. None) [0..<Number sb])
              else (token_promises st)(Cranium := map (\<lambda>i. None) [0..<Number cb]))
        else token_promises st)"
  "tokens_all (then_handler cb sb st)
     = (if accepts (fetch_engine st) (Number cb) \<and> accepts (fetch_engine st) (Number sb)
        then (\<lambda>c. Waiting)(Cranium := (if Number cb = 0 then AllFulfilled else Waiting),
                             Stallion := (if Number sb = 0 then AllFulfilled else Waiting))
        else tokens_all st)"
  "trace (then_handler cb sb st)
     = trace st @
       (if accepts (fetch_engine st) (Number cb)
        then map (lookup_call (fetch_account st) Cranium) [0..<Number cb] @
             (if accepts (fetch_engine st) (Number sb)
              then map (lookup_call (fetch_account st) Stallion) [0..<Number sb]
                   @ (if Number cb = 0 then [SetBalance Cranium []] else [])
                   @ (if Number sb = 0 then [SetBalance Stallion []] else [])
              else alert_effects (Array_error (fetch_engine st) (Number sb)))
        else alert_effects (Array_error (fetch_engine st) (Number cb)))"
  by (auto simp: then_handler_def Let_def Array_indices_def accepts_def Array_error_def
      alert_effects_def)

lemma is_kind_alert_effects [simp]:
  "filter (is_lookup c) (alert_effects e) = []"
  "filter (is_set c) (alert_effects e) = []"
  by (simp_all add: alert_effects_def)

lemma catch_handler_trace: "trace (catch_handler e st) = trace st @ alert_effects e"
  by (simp add: alert_effects_def)


lemma balances_fulfilled_iff:
  "balances_fulfilled st = Some (cb, sb)
     \<longleftrightarrow> balance_promise st Cranium = Some (Resolves cb) \<and> balance_promise st Stallion = Some (Resolves sb)"
  by (auto simp: balances_fulfilled_def split: option.splits outcome.splits)

lemma balances_fulfilled_pending: "balance_promise st c = None \<Longrightarrow> balances_fulfilled st = None"
  by (cases c) (auto simp: balances_fulfilled_def split: option.splits outcome.splits)

lemma balances_fulfilled_rejected:
  "balance_promise st c = Some (Rejects e) \<Longrightarrow> balances_fulfilled st = None"
  by (cases c) (auto simp: balances_fulfilled_def split: option.splits outcome.splits)

lemma fetch_invD:
  assumes "fetch_inv eng a st"
  shows "fetch_account st = a"
    and "balances_all st = all_state_of [balance_promise st Cranium, balance_promise st Stallion]"
    and "length (token_promises st c) = expected_len st c"
    and "filter (is_lookup c) (trace st) = map (lookup_call a c) [0..<length (token_promises st c)]"
    and "tokens_all st c = (if attached st then all_state_of (token_promises st c) else NotAttached)"
    and "filter (is_set c) (trace st) = expected_sets st c"
    and "fetch_engine st = eng"
  using assms unfolding fetch_inv_def by blast+

lemma fetch_inv_pending:
  assumes "fetch_inv eng a st" and "balance_promise st c = None"
  shows "token_promises st c' = []"
    and "tokens_all st c' = NotAttached"
    and "filter (is_lookup c') (trace st) = []"
    and "filter (is_set c') (trace st) = []"
proof -
  have nf: "balances_fulfilled st = None"
    using assms(2) by (rule balances_fulfilled_pending)
  have len: "expected_len st c' = 0" and att: "\<not> attached st"
    using nf by (simp_all add: expected_len_def attached_def)
  from fetch_invD(3) [OF assms(1), of c'] len show tp: "token_promises st c' = []"
    by simp
  from fetch_invD(5) [OF assms(1), of c'] att show "tokens_all st c' = NotAttached"
    by simp
  from fetch_invD(4) [OF assms(1), of c'] tp show "filter (is_lookup c') (trace st) = []"
    by simp
  from fetch_invD(6) [OF assms(1), of c'] att show "filter (is_set c') (trace st) = []"
    by (simp add: expected_sets_def)
qed

lemma fetch_inv_quiet:
  assumes "fetch_engine st = eng" and "fetch_account st = a" and "balances_fulfilled st = None"
    and "balances_all st = all_state_of [balance_promise st Cranium, balance_promise st Stallion]"
    and "token_promises st = (\<lambda>c. [])" and "tokens_all st = (\<lambda>c. NotAttached)"
    and "\<And>c. filter (is_lookup c) (trace st) = []"
    and "\<And>c. filter (is_set c) (trace st) = []"
  shows "fetch_inv eng a st"
  using assms by (simp add: fetch_inv_def expected_len_def attached_def expected_sets_def)

lemma fetch_inv_started:
  assumes "fetch_account st = a"
    and "balance_promise st Cranium = Some (Resolves cb)"
    and "balance_promise st Stallion = Some (Resolves sb)"
    and "balances_all st = AllFulfilled"
    and "token_promises st = (\<lambda>c. [])" and "tokens_all st = (\<lambda>c. NotAttached)"
    and "\<And>c. filter (is_lookup c) (trace st) = []"
    and "\<And>c. filter (is_set c) (trace st) = []"
    and "fetch_engine st = eng"
  shows "fetch_inv eng a (then_handler cb sb st)"
proof -
  have bf: "balances_fulfilled (then_handler cb sb st) = Some (cb, sb)"
    using assms(2,3) by (simp add: balances_fulfilled_iff)
  have one: "length (token_promises (then_handler cb sb st) c) = expected_len (then_handler cb sb st) c" for c
    by (cases c) (simp_all add: expected_len_def bf then_handler_rest assms(5))
  have two: "filter (is_lookup c) (trace (then_handler cb sb st))
                = map (lookup_call a c) [0..<length (token_promises (then_handler cb sb st) c)]" for c
    by (cases c) (simp_all add: then_handler_rest assms(1,5,7))
  have three: "tokens_all (then_handler cb sb st) c
                = (if attached (then_handler cb sb st)
                   then all_state_of (token_promises (then_handler cb sb st) c) else NotAttached)" for c
    by (cases c) (simp_all add: attached_def bf then_handler_rest assms(5,6))
  have four: "filter (is_set c) (trace (then_handler cb sb st)) = expected_sets (then_handler cb sb st) c" for c
    by (cases c) (simp_all add: expected_sets_def attached_def bf then_handler_rest assms(5,8))
  have five: "balances_all (then_handler cb sb st)
      = all_state_of [balance_promise (then_handler cb sb st) Cranium,
                      balance_promise (then_handler cb sb st) Stallion]"
    by (simp add: assms(2,3,4) all_state_of_def)
  show ?thesis
    unfolding fetch_inv_def using one two three four five assms(1,9) by simp
qed

lemma balances_all_reaction_unfold:
  "balances_all_reaction st =
     (if balances_all st \<noteq> Waiting then st
      else case first_rejection [balance_promise st Cranium, balance_promise st Stallion] of
        Some e \<Rightarrow> catch_handler e (st\<lparr>balances_all := AllRejected\<rparr>)
      | None \<Rightarrow>
          (case balances_fulfilled st of
             Some (cb, sb) \<Rightarrow> then_handler cb sb (st\<lparr>balances_all := AllFulfilled\<rparr>)
           | None \<Rightarrow> st))"
  by (simp add: balances_all_reaction_def balances_fulfilled_def split: option.splits outcome.splits)

lemma outcome_option_cases:
  obtains "p = None" | v where "p = Some (Resolves v)" | e where "p = Some (Rejects e)"
  by (cases p) (auto intro: outcome.exhaust)

lemma all_state_of_attached [simp]:
  "all_state_of ps \<noteq> NotAttached" "NotAttached \<noteq> all_state_of ps"
  by (simp_all add: all_state_of_def split: option.splits)

lemma all_state_of_balances:
  "all_state_of [p, q] = AllFulfilled \<longleftrightarrow> (\<exists>v w. p = Some (Resolves v) \<and> q = Some (Resolves w))"
  "all_state_of [p, q] = AllRejected \<longleftrightarrow> first_rejection [p, q] \<noteq> None"
  "all_state_of [p, q] = Waiting \<longleftrightarrow> first_rejection [p, q] = None \<and> (p = None \<or> q = None)"
  by (cases p rule: outcome_option_cases; cases q rule: outcome_option_cases;
      simp add: all_state_of_def)+

lemma rejected_not_fulfilled:
  "first_rejection [balance_promise st Cranium, balance_promise st Stallion] \<noteq> None
     \<Longrightarrow> balances_fulfilled st = None"
  by (cases "balance_promise st Cranium" rule: outcome_option_cases;
      cases "balance_promise st Stallion" rule: outcome_option_cases)
     (simp_all add: balances_fulfilled_def)

lemma waiting_balances:
  "first_rejection [balance_promise st Cranium, balance_promise st Stallion] = None
     \<Longrightarrow> balances_fulfilled st = None
     \<Longrightarrow> all_state_of [balance_promise st Cranium, balance_promise st Stallion] = Waiting"
  by (cases "balance_promise st Cranium" rule: outcome_option_cases;
      cases "balance_promise st Stallion" rule: outcome_option_cases)
     (simp_all add: balances_fulfilled_def all_state_of_def)

lemma fetch_inv_balance:
  assumes inv: "fetch_inv eng a st" and pend: "balance_promise st c = None"
  shows "fetch_inv eng a (balance_step c out st)"
proof -
  define s1 where "s1 = emit [Settled (BalanceSettles c out)]
              (st\<lparr>balance_promise := (balance_promise st)(c := Some out)\<rparr>)"
  note p = fetch_inv_pending [OF inv pend]
  have acc: "fetch_account s1 = a"
    using fetch_invD(1) [OF inv] by (simp add: s1_def)
  have en: "fetch_engine s1 = eng"
    using fetch_invD(7) [OF inv] by (simp add: s1_def)
  have ball: "balances_all s1 = all_state_of [balance_promise st Cranium, balance_promise st Stallion]"
    using fetch_invD(2) [OF inv] by (simp add: s1_def)
  have bp: "balance_promise s1 = (balance_promise st)(c := Some out)"
    by (simp add: s1_def)
  have tp: "token_promises s1 = (\<lambda>c. [])" and ta: "tokens_all s1 = (\<lambda>c. NotAttached)"
    using p(1,2) by (auto simp: s1_def)
  have tl: "filter (is_lookup c') (trace s1) = []" and ts: "filter (is_set c') (trace s1) = []" for c'
    using p(3,4) by (simp_all add: s1_def)
  have old: "balances_all s1 \<noteq> AllFulfilled"
    using ball pend by (cases c) (auto simp: all_state_of_balances)
  have "fetch_inv eng a (balances_all_reaction s1)"
  proof (cases "balances_all s1 = Waiting")
    case False
    with old have rej: "balances_all s1 = AllRejected"
      using ball by (cases "balances_all s1") simp_all
    with ball have "all_state_of [balance_promise st Cranium, balance_promise st Stallion] = AllRejected"
      by simp
    then have "first_rejection [balance_promise st Cranium, balance_promise st Stallion] \<noteq> None"
      by (simp add: all_state_of_balances)
    then have r': "first_rejection [balance_promise s1 Cranium, balance_promise s1 Stallion] \<noteq> None"
      using pend by (cases c) (auto simp: first_rejection_None_iff bp)
    then have nf: "balances_fulfilled s1 = None"
      by (rule rejected_not_fulfilled)
    from r' have "all_state_of [balance_promise s1 Cranium, balance_promise s1 Stallion] = AllRejected"
      using all_state_of_balances(2) by blast
    with rej have "balances_all s1 = all_state_of [balance_promise s1 Cranium, balance_promise s1 Stallion]"
      by simp
    with en acc nf tp ta tl ts have "fetch_inv eng a s1"
      by (intro fetch_inv_quiet)
    with False show ?thesis
      by (simp add: balances_all_reaction_unfold)
  next
    case True
    show ?thesis
    proof (cases "first_rejection [balance_promise s1 Cranium, balance_promise s1 Stallion]")
      case (Some e)
      define s2 where "s2 = catch_handler e (s1\<lparr>balances_all := AllRejected\<rparr>)"
      have f2: "fetch_account s2 = a" "balance_promise s2 = balance_promise s1"
        "balances_all s2 = AllRejected" "token_promises s2 = (\<lambda>c. [])"
        "tokens_all s2 = (\<lambda>c. NotAttached)"
        "\<And>c'. filter (is_lookup c') (trace s2) = []" "\<And>c'. filter (is_set c') (trace s2) = []"
        "fetch_engine s2 = eng"
        using acc en tp ta tl ts
        by (simp_all add: s2_def catch_handler_trace del: catch_handler_fields(6))
      have r2: "first_rejection [balance_promise s2 Cranium, balance_promise s2 Stallion] \<noteq> None"
        using Some f2(2) by simp
      then have nf: "balances_fulfilled s2 = None"
        by (rule rejected_not_fulfilled)
      from r2 have "all_state_of [balance_promise s2 Cranium, balance_promise s2 Stallion] = AllRejected"
        using all_state_of_balances(2) by blast
      with f2(3) have "balances_all s2 = all_state_of [balance_promise s2 Cranium, balance_promise s2 Stallion]"
        by simp
      with f2 nf have "fetch_inv eng a s2"
        by (intro fetch_inv_quiet)
      with True Some show ?thesis
        by (simp add: balances_all_reaction_unfold s2_def)
    next
      case None
      show ?thesis
      proof (cases "balances_fulfilled s1")
        case nf: None
        have "all_state_of [balance_promise s1 Cranium, balance_promise s1 Stallion] = Waiting"
          using None nf by (rule waiting_balances)
        with True have "balances_all s1 = all_state_of [balance_promise s1 Cranium, balance_promise s1 Stallion]"
          by simp
        with en acc nf tp ta tl ts have "fetch_inv eng a s1"
          by (intro fetch_inv_quiet)
        with True None nf show ?thesis
          by (simp add: balances_all_reaction_unfold)
      next
        case (Some cs)
        obtain cb sb where cs: "cs = (cb, sb)" by (cases cs)
        define s2 where "s2 = s1\<lparr>balances_all := AllFulfilled\<rparr>"
        have b2: "balance_promise s2 Cranium = Some (Resolves cb)"
                 "balance_promise s2 Stallion = Some (Resolves sb)"
          using Some cs balances_fulfilled_iff [of s1 cb sb] by (simp_all add: s2_def)
        have f2: "fetch_account s2 = a" "balances_all s2 = AllFulfilled"
          "token_promises s2 = (\<lambda>c. [])" "tokens_all s2 = (\<lambda>c. NotAttached)"
          "\<And>c'. filter (is_lookup c') (trace s2) = []" "\<And>c'. filter (is_set c') (trace s2) = []"
          "fetch_engine s2 = eng"
          using acc en tp ta tl ts by (simp_all add: s2_def)
        from f2(1) b2 f2(2-) have "fetch_inv eng a (then_handler cb sb s2)"
          by (intro fetch_inv_started)
        with True None Some cs show ?thesis
          by (simp add: balances_all_reaction_unfold s2_def)
      qed
    qed
  qed
  then show ?thesis by (simp only: s1_def balance_step_def)
qed

lemma rejected_values_None: "first_rejection ps \<noteq> None \<Longrightarrow> fulfilled_values ps = None"
  by (auto simp: first_rejection_None_iff fulfilled_values_None_iff)

lemma pending_values_None: "i < length ps \<Longrightarrow> ps ! i = None \<Longrightarrow> fulfilled_values ps = None"
  by (auto simp: fulfilled_values_None_iff dest: nth_mem)

lemma rejection_persists:
  assumes "first_rejection ps \<noteq> None" and "i < length ps" and "ps ! i = None"
  shows "first_rejection (ps[i := x]) \<noteq> None"
proof -
  from assms(1) obtain e where "Some (Rejects e) \<in> set ps"
    by (auto simp: first_rejection_None_iff)
  then obtain j where j: "j < length ps" "ps ! j = Some (Rejects e)"
    by (auto simp: in_set_conv_nth)
  with assms(3) have "j \<noteq> i" by auto
  with j have "(ps[i := x]) ! j = Some (Rejects e)" "j < length (ps[i := x])"
    by simp_all
  then have "Some (Rejects e) \<in> set (ps[i := x])"
    by (metis nth_mem)
  then show ?thesis
    by (auto simp: first_rejection_None_iff)
qed

lemma all_state_of_iff:
  "all_state_of ps = AllRejected \<longleftrightarrow> first_rejection ps \<noteq> None"
  "all_state_of ps = Waiting \<longleftrightarrow> first_rejection ps = None \<and> fulfilled_values ps = None"
  "all_state_of ps = AllFulfilled \<longleftrightarrow> fulfilled_values ps \<noteq> None"
  using rejected_values_None [of ps]
  by (auto simp: all_state_of_def split: option.splits)

lemma filter_reaction_effects [simp]:
  "filter (is_lookup c') (reaction_effects c ps) = []"
  "filter (is_set c') (reaction_effects c ps)
     = (if c' = c
        then (case fulfilled_values ps of Some vs \<Rightarrow> [SetBalance c (map Number vs)] | None \<Rightarrow> [])
        else [])"
  using rejected_values_None [of ps]
  by (auto simp: reaction_effects_def split: option.splits)

lemma balances_fulfilled_cong:
  "balance_promise s = balance_promise t \<Longrightarrow> balances_fulfilled s = balances_fulfilled t"
  unfolding balances_fulfilled_def by (erule subst) (rule refl)

lemma expected_len_cong:
  "balance_promise s = balance_promise t \<Longrightarrow> fetch_engine s = fetch_engine t
     \<Longrightarrow> expected_len s = expected_len t"
  by (simp add: expected_len_def fun_eq_iff balances_fulfilled_cong [of s t] split: option.splits)

lemma attached_cong:
  "balance_promise s = balance_promise t \<Longrightarrow> fetch_engine s = fetch_engine t
     \<Longrightarrow> attached s = attached t"
  by (simp add: attached_def balances_fulfilled_cong [of s t] split: option.splits)

lemma token_step_fields:
  "fetch_account (token_step c i out st) = fetch_account st"
  "balance_promise (token_step c i out st) = balance_promise st"
  "balances_all (token_step c i out st) = balances_all st"
  "token_promises (token_step c i out st) = (token_promises st)(c := (token_promises st c)[i := Some out])"
  "tokens_all (token_step c i out st)
     = (if tokens_all st c = Waiting
        then (tokens_all st)(c := all_state_of ((token_promises st c)[i := Some out]))
        else tokens_all st)"
  "trace (token_step c i out st)
     = trace st @ Settled (TokenSettles c i out) #
       (if tokens_all st c = NotAttached
        then (case out of Rejects e \<Rightarrow> [UnhandledRejection e] | Resolves v \<Rightarrow> [])
        else if tokens_all st c = Waiting
        then reaction_effects c ((token_promises st c)[i := Some out]) else [])"
  "fetch_engine (token_step c i out st) = fetch_engine st"
  by (auto simp: token_step_def Let_def split: outcome.splits)

lemma fetch_inv_token:
  assumes inv: "fetch_inv eng a st" and i: "i < length (token_promises st c)"
    and pend: "token_promises st c ! i = None"
  shows "fetch_inv eng a (token_step c i out st)"
proof -
  define t where "t = token_step c i out st"
  define ps where "ps = token_promises st c"
  define ps' where "ps' = ps[i := Some out]"
  have bp: "balance_promise t = balance_promise st"
    by (simp add: t_def token_step_fields)
  have en: "fetch_engine t = fetch_engine st"
    by (simp add: t_def token_step_fields)
  note same = expected_len_cong [OF bp en] attached_cong [OF bp en]
    expected_len_cong [OF token_step_fields(2) token_step_fields(7), of c i out st]
    attached_cong [OF token_step_fields(2) token_step_fields(7), of c i out st]
  have eng: "fetch_engine t = eng"
    using fetch_invD(7) [OF inv] en by simp
  have vn: "fulfilled_values ps = None"
    using i pend unfolding ps_def by (rule pending_values_None)
  have acc: "fetch_account t = a"
    using fetch_invD(1) [OF inv] by (simp add: t_def token_step_fields)
  have ball: "balances_all t = all_state_of [balance_promise t Cranium, balance_promise t Stallion]"
    using fetch_invD(2) [OF inv] by (simp add: t_def token_step_fields)
  have tp: "token_promises t = (token_promises st)(c := ps')"
    by (simp add: t_def token_step_fields ps_def ps'_def)
  have len: "length (token_promises t c') = expected_len t c'" for c'
    using fetch_invD(3) [OF inv, of c'] by (auto simp: tp same ps'_def ps_def)
  have lk: "filter (is_lookup c') (trace t) = map (lookup_call a c') [0..<length (token_promises t c')]" for c'
    using fetch_invD(4) [OF inv, of c']
    by (auto simp: t_def token_step_fields ps'_def ps_def split: outcome.splits)
  have ta: "tokens_all t c' = (if attached t then all_state_of (token_promises t c') else NotAttached)" for c'
  proof (cases "attached st")
    case False
    then show ?thesis
      using fetch_invD(5) [OF inv] by (simp add: same t_def token_step_fields)
  next
    case True
    then have old: "tokens_all st c'' = all_state_of (token_promises st c'')" for c''
      using fetch_invD(5) [OF inv, of c''] by simp
    show ?thesis
    proof (cases "tokens_all st c = Waiting")
      case w: True
      then show ?thesis
        using True old by (simp add: same t_def token_step_fields)
    next
      case nw: False
      with old [of c] vn have "first_rejection ps \<noteq> None"
        by (simp add: all_state_of_def ps_def split: option.splits)
      then have "first_rejection ps' \<noteq> None"
        unfolding ps'_def using i pend by (intro rejection_persists) (simp_all add: ps_def)
      then have "all_state_of ps' = all_state_of ps"
        using \<open>first_rejection ps \<noteq> None\<close> by (simp add: all_state_of_def split: option.splits)
      then show ?thesis
        using True old nw tp by (simp add: same t_def token_step_fields ps_def)
    qed
  qed
  have st: "filter (is_set c') (trace t) = expected_sets t c'" for c'
  proof (cases "attached st")
    case False
    then show ?thesis
      using fetch_invD(5,6) [OF inv]
      by (auto simp: expected_sets_def same t_def token_step_fields split: outcome.splits)
  next
    case True
    then have old: "tokens_all st c'' = all_state_of (token_promises st c'')" for c''
      using fetch_invD(5) [OF inv, of c''] by simp
    have olds: "filter (is_set c'') (trace st)
        = (case fulfilled_values (token_promises st c'') of
             Some vs \<Rightarrow> [SetBalance c'' (map Number vs)] | None \<Rightarrow> [])" for c''
      using fetch_invD(6) [OF inv, of c''] True by (simp add: expected_sets_def)
    have att: "tokens_all st c \<noteq> NotAttached"
      using old [of c] by simp
    show ?thesis
    proof (cases "c' = c")
      case False
      then show ?thesis
        using True olds [of c'] att
        by (simp add: expected_sets_def same t_def token_step_fields)
    next
      case c: True
      have o: "filter (is_set c) (trace st) = []"
        using olds [of c] vn by (simp add: ps_def)
      show ?thesis
      proof (cases "tokens_all st c = Waiting")
        case w: True
        then show ?thesis
          using True o att c
          by (simp add: expected_sets_def same t_def token_step_fields)
      next
        case nw: False
        with old [of c] vn have "first_rejection ps \<noteq> None"
          by (simp add: all_state_of_def ps_def split: option.splits)
        then have "first_rejection ps' \<noteq> None"
          unfolding ps'_def using i pend by (intro rejection_persists) (simp_all add: ps_def)
        then have "fulfilled_values ps' = None"
          by (rule rejected_values_None)
        then show ?thesis
          using True o att c nw
          by (simp add: expected_sets_def same t_def token_step_fields ps'_def ps_def)
      qed
    qed
  qed
  show ?thesis
    unfolding fetch_inv_def t_def [symmetric] using eng acc ball len lk ta st by blast
qed


lemma fetch_inv_init: "fetch_inv eng a (fetch_onClick eng a)"
  by (intro fetch_inv_quiet)
     (simp_all add: fetch_onClick_def balances_fulfilled_def all_state_of_def fetch_balance_calls_def)

lemma fetch_inv_deliver:
  "fetch_inv eng a st \<Longrightarrow> deliver ev st = Some st' \<Longrightarrow> fetch_inv eng a st'"
  by (cases ev) (auto simp: fetch_inv_balance fetch_inv_token split: if_splits)

lemma fetch_inv_run:
  "fetch_inv eng a st \<Longrightarrow> run evs st = Some st' \<Longrightarrow> fetch_inv eng a st'"
proof (induction evs arbitrary: st)
  case Nil
  then show ?case by simp
next
  case (Cons ev evs)
  from Cons.prems(2) obtain s where s: "deliver ev st = Some s" "run evs s = Some st'"
    by (auto split: option.splits)
  from Cons.prems(1) s(1) have "fetch_inv eng a s" by (rule fetch_inv_deliver)
  then show ?case using s(2) by (rule Cons.IH)
qed

lemma fetch_inv_reachable: "run evs (fetch_onClick eng a) = Some st \<Longrightarrow> fetch_inv eng a st"
  using fetch_inv_init by (rule fetch_inv_run)

lemma is_set_cases: "is_set c e \<longleftrightarrow> (\<exists>ids. e = SetBalance c ids)"
  by (cases e) auto

lemma apply_effect_other: "\<not> is_set c e \<Longrightarrow> owned c (apply_effect e ui) = owned c ui"
proof (cases e)
  case (SetBalance c' ids)
  assume "\<not> is_set c e"
  with SetBalance show ?thesis
    by (cases c; cases c') (simp_all add: owned_def)
qed (simp_all add: owned_def)

lemma apply_effect_set: "owned c (apply_effect (SetBalance c ids) ui) = ids"
  by (cases c) (simp_all add: owned_def)

lemma fold_apply_effect_owned:
  "owned c (fold apply_effect tr ui)
     = (if filter (is_set c) tr = [] then owned c ui
        else (case last (filter (is_set c) tr) of SetBalance c' ids \<Rightarrow> ids | _ \<Rightarrow> []))"
proof (induction tr rule: rev_induct)
  case Nil
  show ?case by simp
next
  case (snoc e tr)
  show ?case
  proof (cases "is_set c e")
    case True
    then obtain ids where "e = SetBalance c ids" by (auto simp: is_set_cases)
    then show ?thesis by (simp add: apply_effect_set)
  next
    case False
    then show ?thesis using snoc.IH by (simp add: apply_effect_other)
  qed
qed

lemma after_fetch_owned:
  "filter (is_set c) (trace st) = [SetBalance c ids] \<Longrightarrow> owned c (after_fetch st ui) = ids"
  by (simp add: after_fetch_def fold_apply_effect_owned)

lemma after_fetch_untouched:
  "filter (is_set c) (trace st) = [] \<Longrightarrow> owned c (after_fetch st ui) = owned c ui"
  by (simp add: after_fetch_def fold_apply_effect_owned)


lemma balance_resolved_in_append [simp]:
  "balance_resolved_in c (xs @ ys) \<longleftrightarrow> balance_resolved_in c xs \<or> balance_resolved_in c ys"
  by (auto simp: balance_resolved_in_def)


lemma no_lookup_reaction_effects: "x \<in> set (reaction_effects c ps) \<Longrightarrow> \<not> is_lookup_any x"
  by (auto simp: reaction_effects_def is_lookup_any_def split: option.splits)

lemma no_lookup_alert_effects: "x \<in> set (alert_effects e) \<Longrightarrow> \<not> is_lookup_any x"
  by (auto simp: alert_effects_def is_lookup_any_def)

lemma token_step_trace:
  "\<exists>rest. trace (token_step c i out st) = trace st @ Settled (TokenSettles c i out) # rest
          \<and> (\<forall>x \<in> set rest. \<not> is_lookup_any x)"
  by (auto simp: token_step_fields is_lookup_any_def dest: no_lookup_reaction_effects
      split: outcome.splits)

lemma balance_step_trace:
  "\<exists>rest. trace (balance_step c out st) = trace st @ Settled (BalanceSettles c out) # rest
          \<and> ((\<exists>x \<in> set rest. is_lookup_any x)
              \<longrightarrow> balances_fulfilled (st\<lparr>balance_promise := (balance_promise st)(c := Some out)\<rparr>) \<noteq> None)"
proof -
  define s1 where "s1 = emit [Settled (BalanceSettles c out)]
              (st\<lparr>balance_promise := (balance_promise st)(c := Some out)\<rparr>)"
  have tr1: "trace s1 = trace st @ [Settled (BalanceSettles c out)]"
    by (simp add: s1_def)
  have bf: "balances_fulfilled s1
      = balances_fulfilled (st\<lparr>balance_promise := (balance_promise st)(c := Some out)\<rparr>)"
    by (rule balances_fulfilled_cong) (simp add: s1_def)
  have "\<exists>rest. trace (balances_all_reaction s1) = trace s1 @ rest
          \<and> ((\<exists>x \<in> set rest. is_lookup_any x) \<longrightarrow> balances_fulfilled s1 \<noteq> None)"
    by (auto simp: balances_all_reaction_unfold catch_handler_trace then_handler_rest
        simp del: catch_handler_fields(6)
        dest: no_lookup_alert_effects split: option.splits)
  then show ?thesis
    unfolding balance_step_def s1_def [symmetric] bf [symmetric] tr1 by simp
qed








lemma is_alert_alert_effects: "\<exists>x \<in> set (alert_effects e). is_alert x"
  by (simp add: alert_effects_def)

lemma balance_step_alerts:
  assumes "balances_all (balance_step c out st) = AllRejected"
  shows "balances_all st = AllRejected \<or> (\<exists>x \<in> set (trace (balance_step c out st)). is_alert x)"
proof -
  define s1 where "s1 = emit [Settled (BalanceSettles c out)]
              (st\<lparr>balance_promise := (balance_promise st)(c := Some out)\<rparr>)"
  have b1: "balances_all s1 = balances_all st"
    by (simp add: s1_def)
  have "balances_all (balances_all_reaction s1) = AllRejected
      \<longrightarrow> balances_all s1 = AllRejected \<or> (\<exists>x \<in> set (trace (balances_all_reaction s1)). is_alert x)"
    using is_alert_alert_effects
    by (auto simp: balances_all_reaction_unfold catch_handler_trace
        simp del: catch_handler_fields(6) split: option.splits)
  with assms show ?thesis
    unfolding balance_step_def s1_def [symmetric] b1 by blast
qed

lemma alerted_deliver:
  assumes "balances_all st = AllRejected \<longrightarrow> (\<exists>x \<in> set (trace st). is_alert x)"
    and "deliver ev st = Some st'"
  shows "balances_all st' = AllRejected \<longrightarrow> (\<exists>x \<in> set (trace st'). is_alert x)"
proof (cases ev)
  case (BalanceSettles c out)
  with assms(2) have st': "st' = balance_step c out st"
    by (auto split: if_splits)
  obtain rest where "trace st' = trace st @ Settled (BalanceSettles c out) # rest"
    unfolding st' using balance_step_trace by blast
  then have "\<exists>x \<in> set (trace st). is_alert x \<Longrightarrow> \<exists>x \<in> set (trace st'). is_alert x"
    by auto
  with assms(1) balance_step_alerts [of c out st] show ?thesis
    unfolding st' by blast
next
  case (TokenSettles c i out)
  with assms(2) have st': "st' = token_step c i out st"
    by (auto split: if_splits)
  obtain rest where "trace st' = trace st @ Settled (TokenSettles c i out) # rest"
    unfolding st' using token_step_trace by blast
  then have "\<exists>x \<in> set (trace st). is_alert x \<Longrightarrow> \<exists>x \<in> set (trace st'). is_alert x"
    by auto
  with assms(1) show ?thesis
    unfolding st' by (simp add: token_step_fields)
qed

lemma alerted_run:
  assumes "balances_all st = AllRejected \<longrightarrow> (\<exists>x \<in> set (trace st). is_alert x)"
    and "run evs st = Some st'"
  shows "balances_all st' = AllRejected \<longrightarrow> (\<exists>x \<in> set (trace st'). is_alert x)"
  using assms
proof (induction evs arbitrary: st)
  case Nil
  then show ?case by simp
next
  case (Cons ev evs)
  from Cons.prems(2) obtain s where s: "deliver ev st = Some s" "run evs s = Some st'"
    by (auto split: option.splits)
  from Cons.prems(1) s(1)
  have "balances_all s = AllRejected \<longrightarrow> (\<exists>x \<in> set (trace s). is_alert x)"
    by (rule alerted_deliver)
  then show ?case using s(2) by (rule Cons.IH)
qed

lemma rejected_balance_alerts:
  assumes "run evs (fetch_onClick eng a) = Some st"
    and "balance_promise st c = Some (Rejects e)"
  shows "\<exists>x \<in> set (trace st). is_alert x"
proof -
  have inv: "fetch_inv eng a st" using assms(1) by (rule fetch_inv_reachable)
  have "Some (Rejects e) \<in> set [balance_promise st Cranium, balance_promise st Stallion]"
    using assms(2) by (cases c) simp_all
  then have "first_rejection [balance_promise st Cranium, balance_promise st Stallion] \<noteq> None"
    by (simp only: first_rejection_None_iff) blast
  then have "balances_all st = AllRejected"
    using fetch_invD(2) [OF inv] by (simp add: all_state_of_iff)
  moreover have "balances_all (fetch_onClick eng a) = AllRejected
      \<longrightarrow> (\<exists>x \<in> set (trace (fetch_onClick eng a)). is_alert x)"
    by (simp add: fetch_onClick_def)
  ultimately show ?thesis
    using alerted_run [OF _ assms(1)] by blast
qed


section \<open>Theorems about Fetch\<close>

text \<open>The definitions a concrete run is evaluated with.\<close>

lemmas fetch_eval = fetch_onClick_def fetch_balance_calls_def balance_step_def token_step_def
  emit_def catch_handler_def tokens_all_reaction_def lookup_call_def issue_lookups_def
  then_handler_def balances_all_reaction_def Array_indices_def Number_def js_Number_def Let_def
  upt_conv_Cons example_engine_def


text \<open>
  C3, as the specification states it, fails. With \<open>balanceOf\<close> fulfilled with 3 for the
  Craniums and the Stallion balance query rejected, the whole trace of the Fetch holds
  no \<open>tokenOfOwnerByIndex\<close> call and no setter call: the lookups of either collection
  are issued only after both balance queries are fulfilled. And with a Cranium balance
  of 1000000 in an engine whose \<open>apply\<close> passes at most 65536 arguments,
  \<open>Array.apply\<close> throws, the \<open>catch\<close> callback alerts, and again no lookup is issued
  and no setter is called, not even the Stallion one, whose balance is 0.
\<close>

theorem fetch_no_lookups_when_other_balance_rejected:
  "map_option trace
     (run [BalanceSettles Cranium (Resolves 3), BalanceSettles Stallion (Rejects (ProviderError None))]
        (fetch_onClick example_engine ''0xabc''))
   = Some [Issued (Call MAINNET_CRANIUM_CONTRACT ''0xabc'' (balanceOf ''0xabc'')),
           Issued (Call MAINNET_STALLION_CONTRACT ''0xabc'' (balanceOf ''0xabc'')),
           Settled (BalanceSettles Cranium (Resolves 3)),
           Settled (BalanceSettles Stallion (Rejects (ProviderError None))),
           ConsoleLog (ProviderError None),
           Alert ''Failure fetching Cranium & Stallion balance!'' None]
   \<and> map_option trace
     (run [BalanceSettles Cranium (Resolves 1000000), BalanceSettles Stallion (Resolves 0)]
        (fetch_onClick example_engine ''0xabc''))
   = Some [Issued (Call MAINNET_CRANIUM_CONTRACT ''0xabc'' (balanceOf ''0xabc'')),
           Issued (Call MAINNET_STALLION_CONTRACT ''0xabc'' (balanceOf ''0xabc'')),
           Settled (BalanceSettles Cranium (Resolves 1000000)),
           Settled (BalanceSettles Stallion (Resolves 0)),
           ConsoleLog (RangeError ''Maximum call stack size exceeded''),
           Alert ''Failure fetching Cranium & Stallion balance!''
             (Some ''Maximum call stack size exceeded'')]"
  by (simp add: fetch_eval)


text \<open>
  C3, amended: in every state a Fetch reaches in which both balance queries are
  fulfilled, with values \<open>Array.apply(null, Array(b))\<close> returns for (below \<open>2 ^ 32\<close> and
  at most the engine's limit on the arguments of \<open>apply\<close>), and for either collection,
  with \<open>b\<close> its balance: the collection has exactly \<open>b\<close> token promises, and the
  \<open>tokenOfOwnerByIndex\<close> calls issued for it are exactly those with the indices
  \<open>0\<close> to \<open>b - 1\<close>, in that order; once all of them are fulfilled, with values \<open>vs\<close>,
  there are \<open>b\<close> values, the collection's setter has been called exactly once, with the
  values under \<open>Number\<close>, and the owned-id sequence is that list; in particular, when
  both balances are 0, both owned-id sequences are set to the empty list and neither
  collection renders a label or a checkbox.
\<close>

theorem fetch_lookups_issued_and_owned_set:
  assumes "run evs (fetch_onClick eng a) = Some st"
    and "balance_promise st Cranium = Some (Resolves cb)"
    and "balance_promise st Stallion = Some (Resolves sb)"
    and "accepts eng (unat cb)" and "accepts eng (unat sb)"
    and "balance_promise st c = Some (Resolves b)"
  shows "length (token_promises st c) = unat b
     \<and> filter (is_lookup c) (trace st)
         = map (\<lambda>i. Issued (Call (collection_contract c) a (tokenOfOwnerByIndex a i))) [0..<unat b]
     \<and> (token_promises st c = map (\<lambda>v. Some (Resolves v)) vs
          \<longrightarrow> length vs = unat b
              \<and> filter (is_set c) (trace st) = [SetBalance c (map Number vs)]
              \<and> owned c (after_fetch st ui) = map Number vs)
     \<and> (unat cb = 0 \<and> unat sb = 0
          \<longrightarrow> craniumBalance (after_fetch st ui) = [] \<and> stallionBalance (after_fetch st ui) = []
              \<and> checkboxes Cranium (craniumBalance (after_fetch st ui)) = []
              \<and> checkboxes Stallion (stallionBalance (after_fetch st ui)) = [])"
proof -
  have inv: "fetch_inv eng a st"
    using assms(1) by (rule fetch_inv_reachable)
  have en: "fetch_engine st = eng"
    using inv by (rule fetch_invD(7))
  have small: "unat cb < 2 ^ 53" "unat sb < 2 ^ 53"
    using assms(4,5) by (simp_all add: accepts_def)
  have bf: "balances_fulfilled st = Some (cb, sb)"
    using assms(2,3) by (simp add: balances_fulfilled_iff)
  have num: "Number cb = unat cb" "Number sb = unat sb"
    using small by (simp_all add: Number_small)
  have att: "attached st"
    using bf num en assms(4,5) by (simp add: attached_def)
  have len': "length (token_promises st c') = unat (case c' of Cranium \<Rightarrow> cb | Stallion \<Rightarrow> sb)" for c'
    using fetch_invD(3) [OF inv, of c'] bf num en assms(4,5)
    by (cases c') (simp_all add: expected_len_def)
  have b: "b = (case c of Cranium \<Rightarrow> cb | Stallion \<Rightarrow> sb)"
    using assms(2,3,6) by (cases c) simp_all
  have len: "length (token_promises st c) = unat b"
    using len' [of c] b by simp
  have lk: "filter (is_lookup c) (trace st)
         = map (\<lambda>i. Issued (Call (collection_contract c) a (tokenOfOwnerByIndex a i))) [0..<unat b]"
    using fetch_invD(4) [OF inv, of c] len by (simp add: lookup_call_def [abs_def])
  have sets: "filter (is_set c') (trace st) = [SetBalance c' (map Number ws)]"
    if "token_promises st c' = map (\<lambda>v. Some (Resolves v)) ws" for c' ws
  proof -
    from that have "fulfilled_values (token_promises st c') = Some ws"
      by (simp add: fulfilled_values_Some_iff)
    with fetch_invD(6) [OF inv, of c'] att show ?thesis
      by (simp add: expected_sets_def)
  qed
  have full: "length vs = unat b
              \<and> filter (is_set c) (trace st) = [SetBalance c (map Number vs)]
              \<and> owned c (after_fetch st ui) = map Number vs"
    if "token_promises st c = map (\<lambda>v. Some (Resolves v)) vs"
    using that len sets [OF that] after_fetch_owned [OF sets [OF that]] by simp
  have zero: "craniumBalance (after_fetch st ui) = [] \<and> stallionBalance (after_fetch st ui) = []
              \<and> checkboxes Cranium (craniumBalance (after_fetch st ui)) = []
              \<and> checkboxes Stallion (stallionBalance (after_fetch st ui)) = []"
    if "unat cb = 0 \<and> unat sb = 0"
  proof -
    have e: "token_promises st c' = map (\<lambda>v. Some (Resolves v)) []" for c'
      using len' [of c'] that by (cases c') simp_all
    have "owned c' (after_fetch st ui) = []" for c'
      using after_fetch_owned [OF sets [OF e]] by simp
    from this [of Cranium] this [of Stallion] show ?thesis
      by (simp add: owned_def checkboxes_def)
  qed
  from len lk full zero show ?thesis by blast
qed

theorem fetch_lookups_issued_and_owned_set_witness:
  "\<exists>st. run [BalanceSettles Cranium (Resolves 2), BalanceSettles Stallion (Resolves 1),
              TokenSettles Cranium 1 (Resolves 7), TokenSettles Stallion 0 (Resolves 9),
              TokenSettles Cranium 0 (Resolves 5)] (fetch_onClick example_engine ''0xabc'') = Some st
        \<and> filter (is_lookup Cranium) (trace st)
            = [Issued (Call MAINNET_CRANIUM_CONTRACT ''0xabc'' (tokenOfOwnerByIndex ''0xabc'' 0)),
               Issued (Call MAINNET_CRANIUM_CONTRACT ''0xabc'' (tokenOfOwnerByIndex ''0xabc'' 1))]
        \<and> filter (is_set Cranium) (trace st) = [SetBalance Cranium [5, 7]]
        \<and> craniumBalance (after_fetch st interact_init) = [5, 7]"
proof -
  let ?evs = "[BalanceSettles Cranium (Resolves 2), BalanceSettles Stallion (Resolves 1),
              TokenSettles Cranium 1 (Resolves 7), TokenSettles Stallion 0 (Resolves 9),
              TokenSettles Cranium 0 (Resolves 5)]"
  have "\<exists>st. run ?evs (fetch_onClick example_engine ''0xabc'') = Some st
          \<and> balance_promise st Cranium = Some (Resolves 2)
          \<and> balance_promise st Stallion = Some (Resolves 1)
          \<and> token_promises st Cranium = map (\<lambda>v. Some (Resolves v)) [5, 7]"
    by (simp add: fetch_eval)
  then obtain st where r: "run ?evs (fetch_onClick example_engine ''0xabc'') = Some st"
    and bc: "balance_promise st Cranium = Some (Resolves 2)"
    and bs: "balance_promise st Stallion = Some (Resolves 1)"
    and tp: "token_promises st Cranium = map (\<lambda>v. Some (Resolves v)) [5, 7]"
    by blast
  have small: "accepts example_engine (unat (2 :: uint256))"
    "accepts example_engine (unat (1 :: uint256))"
    by (simp_all add: accepts_def example_engine_def)
  from fetch_lookups_issued_and_owned_set
         [OF r bc bs small bc, of "[5, 7]" interact_init] tp
  have "filter (is_lookup Cranium) (trace st)
            = map (\<lambda>i. Issued (Call (collection_contract Cranium) ''0xabc''
                              (tokenOfOwnerByIndex ''0xabc'' i))) [0..<unat (2 :: uint256)]"
    and "filter (is_set Cranium) (trace st) = [SetBalance Cranium (map Number [5, 7])]"
    and "owned Cranium (after_fetch st interact_init) = map Number [5, 7]"
    by blast+
  then have "filter (is_lookup Cranium) (trace st)
            = [Issued (Call MAINNET_CRANIUM_CONTRACT ''0xabc'' (tokenOfOwnerByIndex ''0xabc'' 0)),
               Issued (Call MAINNET_CRANIUM_CONTRACT ''0xabc'' (tokenOfOwnerByIndex ''0xabc'' 1))]"
    and "filter (is_set Cranium) (trace st) = [SetBalance Cranium [5, 7]]"
    and "craniumBalance (after_fetch st interact_init) = [5, 7]"
    by (simp_all add: owned_def Number_def js_Number_def upt_conv_Cons)
  with r show ?thesis by blast
qed


text \<open>
  C2 holds of the balance queries and of the setter, and fails for the token lookups:
  the \<open>catch\<close> of line 542 is chained to the promise of the outer \<open>then\<close> only, whose
  callback does not return the two inner chains of lines 535-540. With balances 1 and 0
  and the one Cranium lookup rejected, the whole trace of the Fetch holds no alert: the
  rejection ends as an unhandled one. The rest of the claim holds: a rejected balance
  query always alerts (\<open>rejected_balance_alerts\<close>), and the setter of a collection
  with a rejected lookup is never called (\<open>rejected_lookup_never_sets\<close>).
\<close>

theorem fetch_lookup_rejection_raises_no_alert:
  "map_option trace
     (run [BalanceSettles Cranium (Resolves 1), BalanceSettles Stallion (Resolves 0),
           TokenSettles Cranium 0 (Rejects (ProviderError (Some ''timeout'')))]
        (fetch_onClick example_engine ''0xabc''))
   = Some [Issued (Call MAINNET_CRANIUM_CONTRACT ''0xabc'' (balanceOf ''0xabc'')),
           Issued (Call MAINNET_STALLION_CONTRACT ''0xabc'' (balanceOf ''0xabc'')),
           Settled (BalanceSettles Cranium (Resolves 1)),
           Settled (BalanceSettles Stallion (Resolves 0)),
           Issued (Call MAINNET_CRANIUM_CONTRACT ''0xabc'' (tokenOfOwnerByIndex ''0xabc'' 0)),
           SetBalance Stallion [],
           Settled (TokenSettles Cranium 0 (Rejects (ProviderError (Some ''timeout'')))),
           UnhandledRejection (ProviderError (Some ''timeout''))]"
  by (simp add: fetch_eval)


lemma rejected_lookup_never_sets:
  assumes "run evs (fetch_onClick eng a) = Some st"
    and "Some (Rejects e) \<in> set (token_promises st c)"
  shows "SetBalance c ids \<notin> set (trace st)"
proof -
  have inv: "fetch_inv eng a st" using assms(1) by (rule fetch_inv_reachable)
  from assms(2) have "fulfilled_values (token_promises st c) = None"
    by (auto simp: fulfilled_values_None_iff)
  with fetch_invD(6) [OF inv, of c] have "filter (is_set c) (trace st) = []"
    by (simp add: expected_sets_def)
  then show ?thesis
    by (auto simp: filter_empty_conv)
qed



end
